theory Spec2Isabelle
  imports
    Complex_Main
    "HOL-Library.Sublist"
    "HOL-Library.Multiset"
    "HOL-Library.Char_ord"
    "HOL-Library.List_Lexorder"
begin

section \<open>Census data access layer: a shallow embedding of fetch\_census\_data.py\<close>

text \<open>
  The Python module keeps three pieces of process-wide state: the \<open>lru_cache\<close> wrapped
  around \<open>_call_api_cached\<close>, the dictionary \<open>_cache\<close> of \<open>call_api_ttl\<close> and the dictionary
  \<open>_multi_cache\<close> of \<open>call_api_vars_ttl\<close>. All of them hold references to pandas
  DataFrames, which are mutable objects, so the model keeps an explicit store of tables and
  the caches hold addresses. Every call of \<open>SESSION.get\<close> is appended to a list of requests
  sent, which plays the role of call-count instrumentation on the transport.
  A Python name with a leading underscore is written with the prefix \<open>u_\<close>.
\<close>

subsection \<open>Strings\<close>

text \<open>Python's \<open>str.strip()\<close>, \<open>str.upper()\<close> and \<open>str.lower()\<close> on ASCII text.\<close>

definition is_space :: "char \<Rightarrow> bool" where
  "is_space c = (c \<in> set [CHR 0x09, CHR 0x0A, CHR 0x0B, CHR 0x0C, CHR 0x0D,
                              CHR 0x1C, CHR 0x1D, CHR 0x1E, CHR 0x1F, CHR 0x20])"

definition strip :: "string \<Rightarrow> string" where
  "strip s = rev (dropWhile is_space (rev (dropWhile is_space s)))"

definition upper_char :: "char \<Rightarrow> char" where
  "upper_char c =
     (case map_of (zip ''abcdefghijklmnopqrstuvwxyz'' ''ABCDEFGHIJKLMNOPQRSTUVWXYZ'') c of
        Some u \<Rightarrow> u | None \<Rightarrow> c)"

definition lower_char :: "char \<Rightarrow> char" where
  "lower_char c =
     (case map_of (zip ''ABCDEFGHIJKLMNOPQRSTUVWXYZ'' ''abcdefghijklmnopqrstuvwxyz'') c of
        Some l \<Rightarrow> l | None \<Rightarrow> c)"

definition upper :: "string \<Rightarrow> string" where
  "upper s = map upper_char s"

definition lower :: "string \<Rightarrow> string" where
  "lower s = map lower_char s"

text \<open>\<open>sep.join(xs)\<close>.\<close>

fun join :: "string \<Rightarrow> string list \<Rightarrow> string" where
  "join sep [] = []"
| "join sep [x] = x"
| "join sep (x # y # ys) = x @ sep @ join sep (y # ys)"

subsection \<open>Geographies and the resolver\<close>

text \<open>A geography is the Python dict with the optional keys \<open>"for"\<close> and \<open>"in"\<close>.\<close>

type_synonym geo = "string \<rightharpoonup> string"

definition CITY_GEO :: geo where
  "CITY_GEO = [''for'' \<mapsto> ''place:43000'', ''in'' \<mapsto> ''state:06'']"

definition US_GEO :: geo where
  "US_GEO = [''for'' \<mapsto> ''us:1'']"

definition ZCTA_OVERRIDES :: "string \<rightharpoonup> string" where
  "ZCTA_OVERRIDES = map_of [(''DP05_0001E'', ''B01003_001E''), (''DP05_0018E'', ''B01002_001E'')]"


text \<open>\<open>dict.get(k, "")\<close> and Python's \<open>x or ""\<close> on an optional string.\<close>

definition get_or_empty :: "string option \<Rightarrow> string" where
  "get_or_empty v = (case v of Some x \<Rightarrow> x | None \<Rightarrow> [])"

definition is_zcta_geo :: "geo \<Rightarrow> bool" where
  "is_zcta_geo g = prefix ''zip code tabulation area:'' (get_or_empty (g ''for''))"

definition zcta_geo :: "string \<Rightarrow> geo" where
  "zcta_geo z = [''for'' \<mapsto> ''zip code tabulation area:'' @ z]"

definition dataset_for :: "string \<Rightarrow> string" where
  "dataset_for code =
     (let c = upper (strip code)
      in if prefix ''DP'' c then ''acs/acs5/profile'' else ''acs/acs5'')"

definition resolve_code_for_geo :: "string \<Rightarrow> geo \<Rightarrow> string" where
  "resolve_code_for_geo code g =
     (let c = strip code
      in if is_zcta_geo g \<and> c \<in> dom ZCTA_OVERRIDES then the (ZCTA_OVERRIDES c) else c)"

definition u_geo_key :: "geo \<Rightarrow> string option \<times> string option" where
  "u_geo_key g = (g ''for'', g ''in'')"

text \<open>The second dataset chooser, used by the batched call: it does not strip.\<close>

definition u_dataset_for :: "string \<Rightarrow> string" where
  "u_dataset_for code =
     (let c = upper code
      in if prefix ''DP'' c then ''acs/acs5/profile'' else ''acs/acs5'')"

subsection \<open>Tables\<close>

text \<open>
  A DataFrame is a list of column labels and a list of rows. A cell is a string (every value
  of the upstream JSON), a Python int (the appended Year), a float (after numeric coercion),
  \<open>None\<close> (a JSON null, or padding of a short row) or NaN. Column labels are cells too.
\<close>

datatype cell = Str string | Ival int | Fval real | PyNone | NaN

record table =
  columns :: "cell list"
  rows :: "cell list list"

datatype error =
    HTTPError int
  | RequestException
  | JSONDecodeError
  | IndexError
  | ValueError
  | TypeError
  | InvalidIndexError
  | OverflowError

text \<open>\<open>df.empty\<close>: some axis has length zero.\<close>

definition df_empty :: "table \<Rightarrow> bool" where
  "df_empty df = (columns df = [] \<or> rows df = [])"

definition pad_row :: "nat \<Rightarrow> cell list \<Rightarrow> cell list" where
  "pad_row k r = r @ replicate (k - length r) PyNone"

text \<open>
  \<open>pd.DataFrame(data, columns=cols)\<close> for a list of lists: short rows are padded with
  \<open>None\<close> up to the longest row, and the width must be the number of labels.
\<close>

definition DataFrame :: "cell list list \<Rightarrow> cell list \<Rightarrow> error + table" where
  "DataFrame data cols =
     (if data = [] then Inr \<lparr>columns = cols, rows = []\<rparr>
      else let k = fold max (map length data) 0
           in if k \<noteq> length cols then Inl ValueError
              else Inr \<lparr>columns = cols, rows = map (pad_row k) data\<rparr>)"

text \<open>\<open>df.columns.duplicated()\<close>: a label is marked when it occurred before.\<close>

definition duplicated :: "cell list \<Rightarrow> bool list" where
  "duplicated cols = map (\<lambda>i. cols ! i \<in> set (take i cols)) [0..<length cols]"

definition select_cols :: "bool list \<Rightarrow> 'a list \<Rightarrow> 'a list" where
  "select_cols keep xs = map snd (filter fst (zip keep xs))"

definition drop_duplicated_columns :: "table \<Rightarrow> table" where
  "drop_duplicated_columns df =
     (let keep = map Not (duplicated (columns df))
      in \<lparr>columns = select_cols keep (columns df),
          rows = map (select_cols keep) (rows df)\<rparr>)"

text \<open>\<open>df[name] = v\<close> for a scalar \<open>v\<close>.\<close>

definition set_column :: "cell \<Rightarrow> cell \<Rightarrow> table \<Rightarrow> table" where
  "set_column name v df =
     (if name \<in> set (columns df)
      then \<lparr>columns = columns df,
            rows = map (\<lambda>r. map (\<lambda>(c, x). if c = name then v else x) (zip (columns df) r))
                       (rows df)\<rparr>
      else \<lparr>columns = columns df @ [name], rows = map (\<lambda>r. r @ [v]) (rows df)\<rparr>)"

text \<open>The cell of row \<open>r\<close> under label \<open>c\<close>.\<close>

definition cell_at :: "cell list \<Rightarrow> cell list \<Rightarrow> cell \<Rightarrow> cell" where
  "cell_at cols r c = (case map_of (zip cols r) c of Some x \<Rightarrow> x | None \<Rightarrow> NaN)"

text \<open>
  \<open>pd.concat(frames, ignore_index=True)\<close>: rows are stacked; when the frames do not all have
  the same labels, each is reindexed to the union of the labels in order of first
  appearance, which pandas refuses for a frame with a repeated label.
\<close>

definition union_columns :: "cell list list \<Rightarrow> cell list" where
  "union_columns css = rev (remdups (rev (concat css)))"

definition concat_frames :: "table list \<Rightarrow> error + table" where
  "concat_frames fs =
     (case fs of
        [] \<Rightarrow> Inl ValueError
      | f # _ \<Rightarrow>
          if \<forall>g \<in> set fs. columns g = columns f
          then Inr \<lparr>columns = columns f, rows = concat (map rows fs)\<rparr>
          else if \<exists>g \<in> set fs. \<not> distinct (columns g) then Inl InvalidIndexError
          else let cols = union_columns (map columns fs)
               in Inr \<lparr>columns = cols,
                       rows = concat (map (\<lambda>g. map (\<lambda>r. map (cell_at (columns g) r) cols) (rows g)) fs)\<rparr>)"

subsection \<open>The world outside the module, and the module's state\<close>

text \<open>
  A request is one call \<open>SESSION.get(url, params=params, timeout=t)\<close>, where the url is
  \<open>BASE/year/dataset\<close> and the parameter dict has the keys \<open>get\<close> and \<open>key\<close> and,
  optionally, \<open>for\<close> and \<open>in\<close>.
\<close>

record params =
  p_get :: string
  p_key :: string
  p_for :: "string option"
  p_in :: "string option"

record request =
  url_year :: int
  url_dataset :: string
  query :: params
  req_timeout :: nat

text \<open>
  A response carries its status, its text, and its body as parsed by \<open>r.json()\<close>:
  \<open>None\<close> when the body is not a JSON array of arrays.
\<close>

record response =
  status_code :: int
  body_text :: string
  json :: "cell list list option"

text \<open>What \<open>pd.to_numeric\<close> reads from a string: an integer or a float.\<close>

datatype number = IntNum int | FloatNum real

text \<open>
  What the module takes from outside: the credential, the upstream service behind the
  session (its answer may depend on the requests sent before; \<open>Inl\<close> is an exception
  of the transport), and the string parsers of Python's \<open>int()\<close> and of
  \<open>pd.to_numeric\<close>.
\<close>

record env =
  API_KEY :: string
  SESSION_get :: "request list \<Rightarrow> request \<Rightarrow> error + response"
  py_int_str :: "string \<Rightarrow> int option"
  to_numeric_str :: "string \<Rightarrow> number option"

type_synonym addr = nat

text \<open>A reading of \<open>datetime.utcnow()\<close>, in microseconds.\<close>

type_synonym time = int

type_synonym key = "int \<times> string \<times> string \<times> string option \<times> string option"

type_synonym mkey = "int \<times> string list \<times> string option \<times> string option"

record state =
  heap :: "addr \<Rightarrow> table"
  next_addr :: addr
  lru :: "(key \<times> addr) list"
  u_cache :: "key \<rightharpoonup> (addr \<times> time)"
  u_multi_cache :: "mkey \<rightharpoonup> (addr \<times> time)"
  sent :: "request list"

definition init_state :: state where
  "init_state = \<lparr>heap = (\<lambda>_. \<lparr>columns = [], rows = []\<rparr>), next_addr = 0, lru = [],
                  u_cache = Map.empty, u_multi_cache = Map.empty, sent = []\<rparr>"

text \<open>Computations that read and change the state and may raise.\<close>

type_synonym 'a io = "state \<Rightarrow> (error + 'a) \<times> state"

definition io_return :: "'a \<Rightarrow> 'a io" where
  "io_return x s = (Inr x, s)"

definition io_raise :: "error \<Rightarrow> 'a io" where
  "io_raise e s = (Inl e, s)"

definition io_bind :: "'a io \<Rightarrow> ('a \<Rightarrow> 'b io) \<Rightarrow> 'b io" where
  "io_bind m f s = (case m s of (Inl e, s') \<Rightarrow> (Inl e, s') | (Inr x, s') \<Rightarrow> f x s')"

definition io_lift :: "error + 'a \<Rightarrow> 'a io" where
  "io_lift r s = (r, s)"

text \<open>A new DataFrame object, and \<open>df.copy()\<close>.\<close>

definition new_table :: "table \<Rightarrow> addr io" where
  "new_table t s =
     (Inr (next_addr s),
      s\<lparr>heap := (heap s)(next_addr s := t), next_addr := Suc (next_addr s)\<rparr>)"

definition df_copy :: "addr \<Rightarrow> addr io" where
  "df_copy a s = new_table (heap s a) s"

text \<open>What a caller can do to a table it holds a reference to.\<close>

definition mutate :: "addr \<Rightarrow> (table \<Rightarrow> table) \<Rightarrow> state \<Rightarrow> state" where
  "mutate a f s = s\<lparr>heap := (heap s)(a := f (heap s a))\<rparr>"

definition http_get :: "env \<Rightarrow> request \<Rightarrow> response io" where
  "http_get e rq s = (SESSION_get e (sent s) rq, s\<lparr>sent := sent s @ [rq]\<rparr>)"

text \<open>\<open>r.raise_for_status()\<close>.\<close>

definition raise_for_status :: "response \<Rightarrow> unit io" where
  "raise_for_status r =
     (if 400 \<le> status_code r \<and> status_code r < 600 then io_raise (HTTPError (status_code r))
      else io_return ())"

text \<open>\<open>js = r.json(); df = pd.DataFrame(js[1:], columns=js[0])\<close>.\<close>

definition parse_table :: "response \<Rightarrow> error + table" where
  "parse_table r =
     (case json r of
        None \<Rightarrow> Inl JSONDecodeError
      | Some [] \<Rightarrow> Inl IndexError
      | Some (h # data) \<Rightarrow> DataFrame data h)"

text \<open>Python's truth test on an optional string: \<open>None\<close> and \<open>""\<close> are false.\<close>

definition truthy :: "string option \<Rightarrow> string option" where
  "truthy v = (case v of None \<Rightarrow> None | Some x \<Rightarrow> if x = [] then None else Some x)"

subsection \<open>The request executor\<close>

text \<open>
  The body of \<open>_call_api_cached\<close>. \<open>req\<close> is its local function of the same name. The
  dict \<open>params\<close> is never changed after it is built: the retries send changed copies.
\<close>

definition req :: "env \<Rightarrow> int \<Rightarrow> string \<Rightarrow> params \<Rightarrow> response io" where
  "req e year dataset p =
     http_get e \<lparr>url_year = year, url_dataset = dataset, query = p, req_timeout = 15\<rparr>"

definition build_params :: "env \<Rightarrow> string \<Rightarrow> string option \<Rightarrow> string option \<Rightarrow> params" where
  "build_params e code_eff for_val in_val =
     \<lparr>p_get = join '','' [''NAME'', code_eff], p_key = API_KEY e,
      p_for = truthy for_val, p_in = truthy in_val\<rparr>"

text \<open>
  The ZCTA quirk handler: what follows the first attempt, whose response is \<open>r\<close>, up to the
  response that is checked by \<open>raise_for_status\<close>.
\<close>

definition zcta_quirk_handler ::
  "env \<Rightarrow> int \<Rightarrow> string \<Rightarrow> string option \<Rightarrow> params \<Rightarrow> response \<Rightarrow> response io" where
  "zcta_quirk_handler e year dataset for_val params r =
     (if status_code r = 400 \<and> prefix ''zip code tabulation area:'' (get_or_empty for_val)
      then
        (let txt = lower (body_text r)
         in io_bind
              (if sublist ''ambiguous geography'' txt \<and> p_in params = None
               then req e year dataset (params\<lparr>p_in := Some ''state:06''\<rparr>)
               else if sublist ''unknown/unsupported geography hierarchy'' txt \<and> p_in params \<noteq> None
               then req e year dataset (params\<lparr>p_in := None\<rparr>)
               else io_return r)
              (\<lambda>r. if status_code r = 400
                    then (if p_in params \<noteq> None
                          then req e year dataset (params\<lparr>p_in := None\<rparr>)
                          else req e year dataset (params\<lparr>p_in := Some ''state:06''\<rparr>))
                    else io_return r))
      else io_return r)"

definition call_api_uncached ::
  "env \<Rightarrow> int \<Rightarrow> string \<Rightarrow> string \<Rightarrow> string option \<Rightarrow> string option \<Rightarrow> addr io" where
  "call_api_uncached e year code_eff dataset for_val in_val =
     (let params = build_params e code_eff for_val in_val
      in io_bind (req e year dataset params) (\<lambda>r.
         io_bind (zcta_quirk_handler e year dataset for_val params r) (\<lambda>r.
         io_bind (raise_for_status r) (\<lambda>_.
         io_bind (io_lift (parse_table r)) (\<lambda>df.
         new_table (set_column (Str ''Year'') (Ival year) (drop_duplicated_columns df)))))))"

text \<open>
  \<open>@lru_cache(maxsize=4096)\<close>: a hit returns the cached object itself and makes the entry
  the most recent one; a miss runs the body and, when it returns, stores the object,
  dropping the least recent entry of a full cache. An exception is not cached.
\<close>

definition u_call_api_cached ::
  "env \<Rightarrow> int \<Rightarrow> string \<Rightarrow> string \<Rightarrow> string option \<Rightarrow> string option \<Rightarrow> addr io" where
  "u_call_api_cached e year code_eff dataset for_val in_val s =
     (let k = (year, code_eff, dataset, for_val, in_val)
      in case map_of (lru s) k of
           Some a \<Rightarrow> (Inr a, s\<lparr>lru := (k, a) # filter (\<lambda>kv. fst kv \<noteq> k) (lru s)\<rparr>)
         | None \<Rightarrow>
             (case call_api_uncached e year code_eff dataset for_val in_val s of
                (Inl err, s') \<Rightarrow> (Inl err, s')
              | (Inr a, s') \<Rightarrow> (Inr a, s'\<lparr>lru := take 4096 ((k, a) # lru s')\<rparr>)))"

definition call_api :: "env \<Rightarrow> int \<Rightarrow> string \<Rightarrow> geo \<Rightarrow> addr io" where
  "call_api e year code g =
     (let code_eff = resolve_code_for_geo code g;
          dataset = dataset_for code_eff;
          (for_val, in_val) = u_geo_key g
      in u_call_api_cached e year code_eff dataset for_val in_val)"

subsection \<open>The TTL cache\<close>

definition U_TTL_MINUTES :: int where
  "U_TTL_MINUTES = 60"

definition timedelta_minutes :: "int \<Rightarrow> int" where
  "timedelta_minutes m = m * 60000000"

text \<open>
  \<open>timedelta(minutes=m)\<close>: the duration in microseconds; the constructor raises
  \<open>OverflowError\<close> when the number of whole days is beyond 999999999 in magnitude.
\<close>

definition timedelta :: "int \<Rightarrow> error + int" where
  "timedelta m =
     (if - 999999999 \<le> m div 1440 \<and> m div 1440 \<le> 999999999 then Inr (timedelta_minutes m)
      else Inl OverflowError)"

text \<open>The key built in the first lines of \<open>call_api_ttl\<close>.\<close>

definition request_key :: "int \<Rightarrow> string \<Rightarrow> geo \<Rightarrow> key" where
  "request_key year code g =
     (let code_eff = resolve_code_for_geo code g;
          dataset = dataset_for code_eff
      in (year, code_eff, dataset, g ''for'', g ''in''))"

definition call_api_ttl :: "env \<Rightarrow> time \<Rightarrow> int \<Rightarrow> string \<Rightarrow> geo \<Rightarrow> int \<Rightarrow> addr io" where
  "call_api_ttl e now year code g ttl_minutes s =
     (let key = request_key year code g;
          refetch = io_bind (call_api e year code g) (\<lambda>df.
                    io_bind (df_copy df) (\<lambda>c.
                    io_bind (\<lambda>s. (Inr (), s\<lparr>u_cache := (u_cache s)(key \<mapsto> (c, now))\<rparr>)) (\<lambda>_.
                    io_return df)))
      in case u_cache s key of
           Some (df, ts) \<Rightarrow>
             (case timedelta ttl_minutes of
                Inl err \<Rightarrow> (Inl err, s)
              | Inr ttl \<Rightarrow> if now - ts < ttl then df_copy df s else refetch s)
         | None \<Rightarrow> refetch s)"

subsection \<open>Multi-year fan-out\<close>

text \<open>
  \<open>call_api_ttl_many\<close> submits one call of \<open>call_api_ttl\<close> per year to a thread pool and
  gathers the results with \<open>as_completed\<close>. What the threads do is fixed by a schedule:
  the order in which the calls run, each with its reading of the clock (a call is taken to
  run as one step), and the order in which \<open>as_completed\<close> yields the futures. Both
  orders list positions of the list \<open>years\<close>.
\<close>

record sched =
  start_order :: "(nat \<times> time) list"
  done_order :: "nat list"

definition valid_sched :: "int list \<Rightarrow> sched \<Rightarrow> bool" where
  "valid_sched years sc =
     (sort (map fst (start_order sc)) = [0..<length years] \<and>
      sort (done_order sc) = [0..<length years])"

text \<open>
  Every submitted call runs to its end, also when another one raised: the exception of a
  future is raised only by \<open>fut.result()\<close>, and leaving the \<open>with\<close> block waits for the pool.
  The worker \<open>one\<close> does not pass \<open>ttl_minutes\<close> on, so the default applies.
\<close>

fun run_all ::
  "env \<Rightarrow> (nat \<times> time) list \<Rightarrow> int list \<Rightarrow> string \<Rightarrow> geo \<Rightarrow>
   (nat \<rightharpoonup> error + addr) \<Rightarrow> state \<Rightarrow> (nat \<rightharpoonup> error + addr) \<times> state" where
  "run_all e [] years code g res s = (res, s)"
| "run_all e ((i, now) # rest) years code g res s =
     (if i < length years
      then (case call_api_ttl e now (years ! i) code g U_TTL_MINUTES s of
              (r, s') \<Rightarrow> run_all e rest years code g (res(i \<mapsto> r)) s')
      else run_all e rest years code g res s)"

text \<open>The loop over \<open>as_completed(futs)\<close>.\<close>

fun collect ::
  "(addr \<Rightarrow> table) \<Rightarrow> (nat \<rightharpoonup> error + addr) \<Rightarrow> nat list \<Rightarrow> addr list \<Rightarrow> error + addr list" where
  "collect h res [] frames = Inr frames"
| "collect h res (i # rest) frames =
     (case res i of
        None \<Rightarrow> collect h res rest frames
      | Some (Inl err) \<Rightarrow> Inl err
      | Some (Inr df) \<Rightarrow>
          if \<not> df_empty (h df) then collect h res rest (frames @ [df])
          else collect h res rest frames)"

text \<open>Python's \<open>int(x)\<close> on a cell.\<close>

definition py_int :: "env \<Rightarrow> cell \<Rightarrow> error + int" where
  "py_int e c =
     (case c of
        Ival i \<Rightarrow> Inr i
      | Fval x \<Rightarrow> Inr (if 0 \<le> x then \<lfloor>x\<rfloor> else \<lceil>x\<rceil>)
      | Str t \<Rightarrow> (case py_int_str e t of Some i \<Rightarrow> Inr i | None \<Rightarrow> Inl ValueError)
      | PyNone \<Rightarrow> Inl TypeError
      | NaN \<Rightarrow> Inl ValueError)"

text \<open>
  The sort key \<open>int(d["Year"].iloc[0]) if "Year" in d.columns and not d.empty else 0\<close>.
  With a repeated label \<open>d["Year"]\<close> is a frame and \<open>int\<close> of its first row raises.
\<close>

definition year_key :: "env \<Rightarrow> table \<Rightarrow> error + int" where
  "year_key e d =
     (if Str ''Year'' \<in> set (columns d) \<and> \<not> df_empty d
      then (case rows d of
              [] \<Rightarrow> Inr 0
            | r # _ \<Rightarrow>
                if 1 < count_list (columns d) (Str ''Year'') then Inl TypeError
                else py_int e (cell_at (columns d) r (Str ''Year'')))
      else Inr 0)"

fun all_keys :: "(error + int) list \<Rightarrow> error + int list" where
  "all_keys [] = Inr []"
| "all_keys (Inl err # ks) = Inl err"
| "all_keys (Inr k # ks) = (case all_keys ks of Inl err \<Rightarrow> Inl err | Inr rest \<Rightarrow> Inr (k # rest))"

text \<open>
  \<open>frames.sort(key=...)\<close>: the keys are computed first, one per element, and the list is
  then sorted by them; the sort is stable.
\<close>

definition sort_frames :: "env \<Rightarrow> (addr \<Rightarrow> table) \<Rightarrow> addr list \<Rightarrow> error + addr list" where
  "sort_frames e h frames =
     (case all_keys (map (\<lambda>a. year_key e (h a)) frames) of
        Inl err \<Rightarrow> Inl err
      | Inr ks \<Rightarrow> Inr (map snd (sort_key fst (zip ks frames))))"

definition call_api_ttl_many ::
  "env \<Rightarrow> sched \<Rightarrow> int list \<Rightarrow> string \<Rightarrow> geo \<Rightarrow> int \<Rightarrow> (addr list) io" where
  "call_api_ttl_many e sc years code g ttl_minutes s =
     (if min 6 (length years) = 0 then (Inl ValueError, s)
      else (case run_all e (start_order sc) years code g Map.empty s of
              (res, s') \<Rightarrow>
                (case collect (heap s') res (done_order sc) [] of
                   Inl err \<Rightarrow> (Inl err, s')
                 | Inr frames \<Rightarrow> (sort_frames e (heap s') frames, s'))))"

subsection \<open>Multi-variable batching\<close>

text \<open>One pass of the loop over the buckets of \<open>call_api_vars\<close>, for a non-empty bucket.\<close>

definition bucket_params :: "env \<Rightarrow> geo \<Rightarrow> string list \<Rightarrow> params" where
  "bucket_params e g vars =
     \<lparr>p_get = ''NAME,'' @ join '','' vars, p_key = API_KEY e,
      p_for = g ''for'', p_in = g ''in''\<rparr>"

definition fetch_bucket :: "env \<Rightarrow> int \<Rightarrow> geo \<Rightarrow> string \<Rightarrow> string list \<Rightarrow> table io" where
  "fetch_bucket e year g dataset vars =
     (let get = (\<lambda>p t. http_get e \<lparr>url_year = year, url_dataset = dataset, query = p, req_timeout = t\<rparr>);
          params = bucket_params e g vars
      in io_bind (get params 15) (\<lambda>r.
         io_bind
           (if status_code r = 400 \<and> sublist ''zip code tabulation area'' (get_or_empty (p_for params))
            then
              (let txt = lower (body_text r)
               in if sublist ''ambiguous geography'' txt \<and> p_in params = None
                  then get (params\<lparr>p_in := Some ''state:06''\<rparr>) 60
                  else if sublist ''unsupported geography hierarchy'' txt \<and> p_in params \<noteq> None
                  then get (params\<lparr>p_in := None\<rparr>) 60
                  else io_return r)
            else io_return r) (\<lambda>r.
         io_bind (raise_for_status r) (\<lambda>_.
         io_bind (io_lift (parse_table r)) (\<lambda>df.
         io_return (set_column (Str ''Year'') (Ival year) df))))))"

fun fetch_buckets ::
  "env \<Rightarrow> int \<Rightarrow> geo \<Rightarrow> (string \<times> string list) list \<Rightarrow> table list \<Rightarrow> (table list) io" where
  "fetch_buckets e year g [] frames = io_return frames"
| "fetch_buckets e year g ((dataset, vars) # rest) frames =
     (if vars = [] then fetch_buckets e year g rest frames
      else io_bind (fetch_bucket e year g dataset vars)
             (\<lambda>df. fetch_buckets e year g rest (frames @ [df])))"

text \<open>The dict \<open>buckets\<close> after the first loop, in its insertion order.\<close>

definition buckets :: "string list \<Rightarrow> (string \<times> string list) list" where
  "buckets codes =
     [(''acs/acs5/profile'', filter (\<lambda>c. u_dataset_for c = ''acs/acs5/profile'') codes),
      (''acs/acs5'', filter (\<lambda>c. u_dataset_for c = ''acs/acs5'') codes)]"

definition call_api_vars :: "env \<Rightarrow> int \<Rightarrow> string list \<Rightarrow> geo \<Rightarrow> addr io" where
  "call_api_vars e year codes g =
     io_bind (fetch_buckets e year g (buckets codes) []) (\<lambda>frames.
       if frames \<noteq> [] then io_bind (io_lift (concat_frames frames)) new_table
       else new_table \<lparr>columns = [], rows = []\<rparr>)"

definition multi_key :: "int \<Rightarrow> string list \<Rightarrow> geo \<Rightarrow> mkey" where
  "multi_key year codes g = (year, sort codes, g ''for'', g ''in'')"

definition call_api_vars_ttl :: "env \<Rightarrow> time \<Rightarrow> int \<Rightarrow> string list \<Rightarrow> geo \<Rightarrow> int \<Rightarrow> addr io" where
  "call_api_vars_ttl e now year codes g ttl_minutes s =
     (let key = multi_key year codes g;
          refetch = io_bind (call_api_vars e year codes g) (\<lambda>df.
                    io_bind (df_copy df) (\<lambda>c.
                    io_bind (\<lambda>s. (Inr (), s\<lparr>u_multi_cache := (u_multi_cache s)(key \<mapsto> (c, now))\<rparr>)) (\<lambda>_.
                    io_return df)))
      in case u_multi_cache s key of
           Some (df, ts) \<Rightarrow>
             (case timedelta ttl_minutes of
                Inl err \<Rightarrow> (Inl err, s)
              | Inr ttl \<Rightarrow> if now - ts < ttl then df_copy df s else refetch s)
         | None \<Rightarrow> refetch s)"

subsection \<open>The tidy reshaper\<close>















subsection \<open>Predicates on states and tables used in the properties\<close>

text \<open>From \<open>s\<close> to \<open>s'\<close> at most \<open>n\<close> requests were sent and nothing else changed.\<close>

definition sends_only :: "nat \<Rightarrow> state \<Rightarrow> state \<Rightarrow> bool" where
  "sends_only n s s' =
     (s' = s\<lparr>sent := sent s'\<rparr> \<and> take (length (sent s)) (sent s') = sent s
      \<and> length (sent s') \<le> length (sent s) + n)"

text \<open>The requests sent between \<open>s\<close> and \<open>s'\<close>.\<close>

definition new_requests :: "state \<Rightarrow> state \<Rightarrow> request list" where
  "new_requests s s' = drop (length (sent s)) (sent s')"

text \<open>
  A computation that neither reads nor writes the two caches of the single-call path:
  run from a state with other contents of \<open>_cache\<close> and of the \<open>lru_cache\<close>, it does the
  same and leaves those contents as they are.
\<close>

definition ignores_single_caches :: "'a io \<Rightarrow> bool" where
  "ignores_single_caches m =
     (\<forall>s c l. m (s\<lparr>u_cache := c, lru := l\<rparr>)
              = (case m s of (r, s') \<Rightarrow> (r, s'\<lparr>u_cache := c, lru := l\<rparr>)))"

text \<open>
  The tables that the futures returned, in the order of \<open>as_completed\<close>, and the embedded
  year of a table: its sort key, where that is an integer.
\<close>

definition fetched :: "(nat \<rightharpoonup> error + addr) \<Rightarrow> nat list \<Rightarrow> addr list" where
  "fetched res done = List.map_filter (\<lambda>i. case res i of Some (Inr a) \<Rightarrow> Some a | _ \<Rightarrow> None) done"

definition year_of :: "env \<Rightarrow> (addr \<Rightarrow> table) \<Rightarrow> addr \<Rightarrow> int" where
  "year_of e h a = (case year_key e (h a) of Inr y \<Rightarrow> y | Inl err \<Rightarrow> 0)"


text \<open>
  The codes of a dataset family, and the requests of a run that went to a family's dataset.
\<close>

definition family_codes :: "string \<Rightarrow> string list \<Rightarrow> string list" where
  "family_codes d codes = filter (\<lambda>c. u_dataset_for c = d) codes"

definition family_requests :: "string \<Rightarrow> state \<Rightarrow> state \<Rightarrow> request list" where
  "family_requests d s s' = filter (\<lambda>rq. url_dataset rq = d) (new_requests s s')"

text \<open>
  The first request of \<open>call_api_vars\<close> for a family and its retry after a ZCTA quirk: the
  same request with the containing-region clause added or taken away and a timeout of 60.
\<close>

definition bucket_request :: "env \<Rightarrow> int \<Rightarrow> geo \<Rightarrow> string \<Rightarrow> string list \<Rightarrow> request" where
  "bucket_request e year g dataset vars =
     \<lparr>url_year = year, url_dataset = dataset, query = bucket_params e g vars, req_timeout = 15\<rparr>"

definition retry_request :: "env \<Rightarrow> int \<Rightarrow> geo \<Rightarrow> string \<Rightarrow> string list \<Rightarrow> request" where
  "retry_request e year g dataset vars =
     \<lparr>url_year = year, url_dataset = dataset,
      query = (bucket_params e g vars)\<lparr>p_in := (if g ''in'' = None then Some ''state:06'' else None)\<rparr>,
      req_timeout = 60\<rparr>"

text \<open>
  Whether the answer to the first request of a family, sent after the requests \<open>past\<close>, is
  one of the two ZCTA quirks that \<open>call_api_vars\<close> retries, and the requests of a family
  that follow from it: the first request and, after such an answer, the retry.
\<close>

definition wants_retry :: "env \<Rightarrow> geo \<Rightarrow> request list \<Rightarrow> request \<Rightarrow> bool" where
  "wants_retry e g past rq =
     (case SESSION_get e past rq of
        Inl err \<Rightarrow> False
      | Inr r \<Rightarrow>
          status_code r = 400
          \<and> sublist ''zip code tabulation area'' (get_or_empty (g ''for''))
          \<and> (sublist ''ambiguous geography'' (lower (body_text r)) \<and> g ''in'' = None
             \<or> sublist ''unsupported geography hierarchy'' (lower (body_text r)) \<and> g ''in'' \<noteq> None))"

definition family_run ::
  "env \<Rightarrow> int \<Rightarrow> geo \<Rightarrow> string \<Rightarrow> string list \<Rightarrow> request list \<Rightarrow> request list" where
  "family_run e year g dataset vars past =
     (if wants_retry e g past (bucket_request e year g dataset vars)
      then [bucket_request e year g dataset vars, retry_request e year g dataset vars]
      else [bucket_request e year g dataset vars])"

text \<open>
  The table read from the answer to the last of the requests \<open>reqs\<close> of a family, sent
  after the requests \<open>past\<close>, with the column \<open>Year\<close> set; \<open>None\<close> when the transport
  raised, the status is an error, or the body is no table.
\<close>

definition family_table :: "env \<Rightarrow> int \<Rightarrow> request list \<Rightarrow> request list \<Rightarrow> table option" where
  "family_table e year past reqs =
     (case SESSION_get e (past @ butlast reqs) (last reqs) of
        Inl err \<Rightarrow> None
      | Inr r \<Rightarrow>
          if 400 \<le> status_code r \<and> status_code r < 600 then None
          else (case parse_table r of
                  Inl err \<Rightarrow> None
                | Inr df \<Rightarrow> Some (set_column (Str ''Year'') (Ival year) df)))"

text \<open>Every reference held by a cache points to an object that exists.\<close>

definition wf_state :: "state \<Rightarrow> bool" where
  "wf_state s =
     ((\<forall>a \<in> snd ` set (lru s). a < next_addr s)
      \<and> (\<forall>v \<in> ran (u_cache s). fst v < next_addr s)
      \<and> (\<forall>v \<in> ran (u_multi_cache s). fst v < next_addr s))"

subsection \<open>A small upstream service, for running the model\<close>

text \<open>
  This service answers every request for the year 2020 with a header row only, every other
  request with one data row, and knows no quirk. Its parsers read two numerals.
\<close>

definition demo_server :: "request list \<Rightarrow> request \<Rightarrow> error + response" where
  "demo_server past rq =
     Inr \<lparr>status_code = 200, body_text = [],
          json = Some (if url_year rq = 2020 then [[Str ''NAME'', Str ''B01003_001E'']]
                       else [[Str ''NAME'', Str ''B01003_001E''],
                             [Str ''Long Beach'', Str ''466742'']])\<rparr>"

definition demo_env :: env where
  "demo_env = \<lparr>API_KEY = ''secret'', SESSION_get = demo_server,
               py_int_str = (\<lambda>t. if t = ''2023'' then Some 2023 else None),
               to_numeric_str = (\<lambda>t. if t = ''466742'' then Some (IntNum 466742) else None)\<rparr>"

text \<open>
  A service with the ZCTA quirk: a request without a containing-region clause is ambiguous,
  one with the clause is answered. And one that finds every request ambiguous.
\<close>

definition zcta_server :: "request list \<Rightarrow> request \<Rightarrow> error + response" where
  "zcta_server past rq =
     (if p_in (query rq) = None
      then Inr \<lparr>status_code = 400, body_text = ''error: ambiguous geography'', json = None\<rparr>
      else Inr \<lparr>status_code = 200, body_text = [],
                json = Some [[Str ''NAME'', Str ''VALUE''], [Str ''ZCTA5 90802'', Str ''39347'']]\<rparr>)"

definition zcta_env :: env where
  "zcta_env = demo_env\<lparr>SESSION_get := zcta_server\<rparr>"

definition always_ambiguous :: "request list \<Rightarrow> request \<Rightarrow> error + response" where
  "always_ambiguous past rq =
     Inr \<lparr>status_code = 400, body_text = ''error: ambiguous geography'', json = None\<rparr>"

definition ambiguous_env :: env where
  "ambiguous_env = demo_env\<lparr>SESSION_get := always_ambiguous\<rparr>"




text \<open>
  The state after one first call \<open>call_api_ttl(2023, "DP05_0001E", CITY_GEO)\<close> at time 0,
  and a change a caller makes to a table it holds: \<open>df["Geo"] = "City"\<close>.
\<close>

definition after_first_call :: state where
  "after_first_call = snd (call_api_ttl demo_env 0 2023 ''DP05_0001E'' CITY_GEO 60 init_state)"

definition add_geo_column :: "table \<Rightarrow> table" where
  "add_geo_column = set_column (Str ''Geo'') (Str ''City'')"

text \<open>
  The states after the same call made again 60 minutes later: from the state above, and
  from that state after the caller has changed the table it got at address 0.
\<close>

definition after_expired_call :: state where
  "after_expired_call =
     snd (call_api_ttl demo_env 3600000000 2023 ''DP05_0001E'' CITY_GEO 60 after_first_call)"

definition after_mutated_expired_call :: state where
  "after_mutated_expired_call =
     snd (call_api_ttl demo_env 3600000000 2023 ''DP05_0001E'' CITY_GEO 60
            (mutate 0 add_geo_column after_first_call))"

text \<open>
  The states after a failing ZCTA call to the service that finds everything ambiguous, and
  after batched calls for a ZCTA with and without the TTL wrapper.
\<close>

definition after_ambiguous_call :: state where
  "after_ambiguous_call =
     snd (call_api ambiguous_env 2023 ''B01003_001E'' (zcta_geo ''90802'') init_state)"

definition after_zcta_batch_call :: state where
  "after_zcta_batch_call =
     snd (call_api_vars zcta_env 2023 [''DP05_0001E'', ''B01001_001E''] (zcta_geo ''90802'')
            init_state)"

definition after_zcta_batch_ttl_call :: state where
  "after_zcta_batch_ttl_call =
     snd (call_api_vars_ttl zcta_env 0 2023 [''DP05_0001E''] (zcta_geo ''90802'') 60 init_state)"

text \<open>The state after one batched call for the city, with a code of each family.\<close>

definition after_batch_call :: state where
  "after_batch_call =
     snd (call_api_vars demo_env 2023 [''DP05_0001E'', ''B01001_001E''] CITY_GEO init_state)"

text \<open>
  The state after a batched call \<open>call_api_vars_ttl(2023, ["DP05_0001E"], CITY_GEO)\<close> at
  time 1, made after the single call above.
\<close>

definition after_batch_ttl_call :: state where
  "after_batch_ttl_call =
     snd (call_api_vars_ttl demo_env 1 2023 [''DP05_0001E''] CITY_GEO 60 after_first_call)"

text \<open>
  Two schedules for \<open>call_api_ttl_many([2021, 2023, 2022], "B01003_001E", CITY_GEO)\<close> that
  differ in the order of completion, and one for the years 2021 and 2020, of which the
  second has no rows.
\<close>

definition demo_sched :: sched where
  "demo_sched = \<lparr>start_order = [(0, 0), (1, 5), (2, 7)], done_order = [1, 2, 0]\<rparr>"

definition demo_sched' :: sched where
  "demo_sched' = \<lparr>start_order = [(0, 0), (1, 5), (2, 7)], done_order = [2, 0, 1]\<rparr>"

definition demo_sched2 :: sched where
  "demo_sched2 = \<lparr>start_order = [(1, 0), (0, 3)], done_order = [0, 1]\<rparr>"

definition demo_years :: "int list" where
  "demo_years = [2021, 2023, 2022]"

definition after_fan_out :: state where
  "after_fan_out =
     snd (call_api_ttl_many demo_env demo_sched demo_years ''B01003_001E'' CITY_GEO 60 init_state)"

definition demo_run2 :: "(nat \<rightharpoonup> error + addr) \<times> state" where
  "demo_run2 =
     run_all demo_env (start_order demo_sched2) [2021, 2020] ''B01003_001E'' CITY_GEO
       Map.empty init_state"

section \<open>Properties\<close>

subsection \<open>The resolver\<close>

lemma strip_DP05_0001E: "strip ''DP05_0001E'' = ''DP05_0001E''"
  by (simp add: strip_def is_space_def)

lemma dataset_for_B01003_001E: "dataset_for ''B01003_001E'' = ''acs/acs5''"
  by (simp add: dataset_for_def strip_def is_space_def upper_def upper_char_def)

lemma dataset_for_DP05_0001E: "dataset_for ''DP05_0001E'' = ''acs/acs5/profile''"
  by (simp add: dataset_for_def strip_def is_space_def upper_def upper_char_def)

lemma CITY_GEO_not_zcta: "\<not> is_zcta_geo CITY_GEO"
  by (simp add: is_zcta_geo_def CITY_GEO_def get_or_empty_def)

lemma zcta_geo_is_zcta: "is_zcta_geo (zcta_geo z)"
  by (simp add: is_zcta_geo_def zcta_geo_def get_or_empty_def)

text \<open>
  C6. The resolver is a function of the code and of the geography's \<open>for\<close> clause alone (no
  state is read or written), so identical inputs give identical effective requests.
  Under every ZCTA geography \<open>DP05_0001E\<close> resolves to \<open>B01003_001E\<close> in the detailed
  dataset \<open>acs/acs5\<close>; under the city geography it stays \<open>DP05_0001E\<close> in the profile
  dataset \<open>acs/acs5/profile\<close>.
\<close>

theorem resolve_deterministic:
  "(g ''for'' = g' ''for'' \<longrightarrow> resolve_code_for_geo code g = resolve_code_for_geo code g')
   \<and> (is_zcta_geo g \<longrightarrow>
        resolve_code_for_geo ''DP05_0001E'' g = ''B01003_001E''
        \<and> dataset_for (resolve_code_for_geo ''DP05_0001E'' g) = ''acs/acs5'')
   \<and> resolve_code_for_geo ''DP05_0001E'' CITY_GEO = ''DP05_0001E''
   \<and> dataset_for (resolve_code_for_geo ''DP05_0001E'' CITY_GEO) = ''acs/acs5/profile''"
proof -
  have a: "g ''for'' = g' ''for'' \<longrightarrow> resolve_code_for_geo code g = resolve_code_for_geo code g'"
    by (simp add: resolve_code_for_geo_def is_zcta_geo_def)
  have ov: "ZCTA_OVERRIDES ''DP05_0001E'' = Some ''B01003_001E''"
    by (simp add: ZCTA_OVERRIDES_def)
  have z: "is_zcta_geo g \<Longrightarrow> resolve_code_for_geo ''DP05_0001E'' g = ''B01003_001E''"
    by (simp add: resolve_code_for_geo_def strip_DP05_0001E ov dom_def)
  have c: "resolve_code_for_geo ''DP05_0001E'' CITY_GEO = ''DP05_0001E''"
    by (simp add: resolve_code_for_geo_def strip_DP05_0001E CITY_GEO_not_zcta)
  show ?thesis
    using a z c dataset_for_B01003_001E dataset_for_DP05_0001E by simp
qed

theorem resolve_deterministic_witness:
  "is_zcta_geo (zcta_geo ''90802'')
   \<and> zcta_geo ''90802'' ''for'' = zcta_geo ''90802'' ''for''
   \<and> resolve_code_for_geo ''DP05_0001E'' (zcta_geo ''90802'') = ''B01003_001E''
   \<and> dataset_for (resolve_code_for_geo ''DP05_0001E'' (zcta_geo ''90802'')) = ''acs/acs5''"
  using zcta_geo_is_zcta [of "''90802''"]
    resolve_deterministic [of "zcta_geo ''90802''" "zcta_geo ''90802''" "''DP05_0001E''"]
  by blast

subsection \<open>The tidy reshaper\<close>






















subsection \<open>What a call changes\<close>

lemma sends_only_iff:
  "sends_only n s s' \<longleftrightarrow> (\<exists>extra. s' = s\<lparr>sent := sent s @ extra\<rparr> \<and> length extra \<le> n)"
proof
  assume a: "sends_only n s s'"
  let ?x = "drop (length (sent s)) (sent s')"
  from a have "sent s @ ?x = sent s'"
    by (metis append_take_drop_id sends_only_def)
  with a have "s' = s\<lparr>sent := sent s @ ?x\<rparr> \<and> length ?x \<le> n"
    by (auto simp: sends_only_def)
  then show "\<exists>extra. s' = s\<lparr>sent := sent s @ extra\<rparr> \<and> length extra \<le> n" by blast
next
  assume "\<exists>extra. s' = s\<lparr>sent := sent s @ extra\<rparr> \<and> length extra \<le> n"
  then show "sends_only n s s'" by (auto simp: sends_only_def)
qed

lemma sends_only_refl: "sends_only n s s"
  by (simp add: sends_only_def)

lemma sends_only_trans:
  "sends_only n s s1 \<Longrightarrow> sends_only m s1 s2 \<Longrightarrow> sends_only (n + m) s s2"
  unfolding sends_only_iff
proof (elim exE conjE)
  fix xs ys
  assume "s1 = s\<lparr>sent := sent s @ xs\<rparr>" "length xs \<le> n"
    "s2 = s1\<lparr>sent := sent s1 @ ys\<rparr>" "length ys \<le> m"
  then have "s2 = s\<lparr>sent := sent s @ (xs @ ys)\<rparr> \<and> length (xs @ ys) \<le> n + m" by simp
  then show "\<exists>extra. s2 = s\<lparr>sent := sent s @ extra\<rparr> \<and> length extra \<le> n + m" by blast
qed

lemma sends_only_mono: "sends_only n s s' \<Longrightarrow> n \<le> m \<Longrightarrow> sends_only m s s'"
  by (auto simp: sends_only_iff)

lemma sends_only_fields:
  "sends_only n s s' \<Longrightarrow>
     heap s' = heap s \<and> next_addr s' = next_addr s \<and> lru s' = lru s \<and> u_cache s' = u_cache s
     \<and> u_multi_cache s' = u_multi_cache s \<and> prefix (sent s) (sent s')
     \<and> length (sent s') \<le> length (sent s) + n"
  by (auto simp: sends_only_iff)

lemma io_bind_cases:
  assumes "io_bind m f s = (r, s')"
  obtains (raised) err where "m s = (Inl err, s')" "r = Inl err"
        | (returned) x s1 where "m s = (Inr x, s1)" "f x s1 = (r, s')"
  using assms by (auto simp: io_bind_def split: prod.splits sum.splits)

lemma req_sends:
  "req e year dataset p s = (r, s') \<Longrightarrow> sends_only 1 s s' \<and> length (sent s') = Suc (length (sent s))"
  by (auto simp: req_def http_get_def sends_only_iff)

lemma zcta_quirk_handler_sends:
  "zcta_quirk_handler e year dataset for_val p r s = (x, s') \<Longrightarrow> sends_only 2 s s'"
  by (auto simp: sends_only_def zcta_quirk_handler_def Let_def io_bind_def io_return_def req_def http_get_def
      split: if_splits sum.splits prod.splits)

lemma call_api_uncached_cases:
  assumes "call_api_uncached e year code_eff dataset for_val in_val s = (r, s')"
  obtains (raised) err where "r = Inl err" "sends_only 3 s s'" "length (sent s) < length (sent s')"
  | (returned) s2 t where "r = Inr (next_addr s)" "sends_only 3 s s2" "length (sent s) < length (sent s2)"
      "s' = s2\<lparr>heap := (heap s2)(next_addr s := t), next_addr := Suc (next_addr s)\<rparr>"
proof -
  let ?p = "build_params e code_eff for_val in_val"
  from assms have b: "io_bind (req e year dataset ?p) (\<lambda>r.
         io_bind (zcta_quirk_handler e year dataset for_val ?p r) (\<lambda>r.
         io_bind (raise_for_status r) (\<lambda>_.
         io_bind (io_lift (parse_table r)) (\<lambda>df.
         new_table (set_column (Str ''Year'') (Ival year) (drop_duplicated_columns df)))))) s = (r, s')"
    by (simp add: call_api_uncached_def Let_def)
  from b show ?thesis
  proof (cases rule: io_bind_cases)
    case (raised err)
    from req_sends [OF raised(1)] raised(2) show ?thesis
      by (intro that(1) [of err]) (auto intro: sends_only_mono)
  next
    case (returned r0 s1)
    from req_sends [OF returned(1)] have s1: "sends_only 1 s s1" "length (sent s1) = Suc (length (sent s))"
      by simp_all
    from returned(2) show ?thesis
    proof (cases rule: io_bind_cases)
      case (raised err)
      from zcta_quirk_handler_sends [OF raised(1)] have q: "sends_only 2 s1 s'" .
      from sends_only_trans [OF s1(1) q] have "sends_only 3 s s'" by (simp add: numeral_3_eq_3)
      moreover from sends_only_fields [OF q] s1(2) have "length (sent s) < length (sent s')"
        by (auto simp: prefix_def)
      ultimately show ?thesis using raised(2) by (intro that(1) [of err])
    next
      case (returned r1 s2)
      from zcta_quirk_handler_sends [OF returned(1)] have q: "sends_only 2 s1 s2" .
      from sends_only_trans [OF s1(1) q] have s2: "sends_only 3 s s2" by (simp add: numeral_3_eq_3)
      from sends_only_fields [OF q] s1(2) have lt: "length (sent s) < length (sent s2)"
        by (auto simp: prefix_def)
      from sends_only_fields [OF s2] have na: "next_addr s2 = next_addr s" by simp
      from returned(2) show ?thesis
      proof (cases rule: io_bind_cases)
        case (raised err)
        then have "s' = s2" by (auto simp: raise_for_status_def io_raise_def io_return_def split: if_splits)
        with s2 lt raised(2) show ?thesis by (intro that(1) [of err]) auto
      next
        case (returned u s3)
        then have s3: "s3 = s2" by (auto simp: raise_for_status_def io_raise_def io_return_def split: if_splits)
        from returned(2) show ?thesis
        proof (cases rule: io_bind_cases)
          case (raised err)
          then have "s' = s2" using s3 by (auto simp: io_lift_def)
          with s2 lt raised(2) show ?thesis by (intro that(1) [of err]) auto
        next
          case (returned df s4)
          then have s4: "s4 = s2" using s3 by (auto simp: io_lift_def)
          from returned(2) s4 na show ?thesis
            by (intro that(2) [OF _ s2 lt]) (auto simp: new_table_def)
        qed
      qed
    qed
  qed
qed


subsection \<open>The caches\<close>

lemma call_api_unfold:
  "call_api e year code g =
     u_call_api_cached e year (resolve_code_for_geo code g)
       (dataset_for (resolve_code_for_geo code g)) (g ''for'') (g ''in'')"
  by (simp add: call_api_def Let_def u_geo_key_def)

lemma call_api_cases:
  assumes "call_api e year code g s = (r, s')"
  obtains (lru_hit) a where "map_of (lru s) (request_key year code g) = Some a" "r = Inr a"
      "s' = s\<lparr>lru := (request_key year code g, a) # filter (\<lambda>kv. fst kv \<noteq> request_key year code g) (lru s)\<rparr>"
  | (raised) err where "map_of (lru s) (request_key year code g) = None" "r = Inl err"
      "sends_only 3 s s'" "length (sent s) < length (sent s')"
  | (fetched) s2 t where "map_of (lru s) (request_key year code g) = None" "r = Inr (next_addr s)"
      "sends_only 3 s s2" "length (sent s) < length (sent s2)"
      "s' = s2\<lparr>heap := (heap s2)(next_addr s := t), next_addr := Suc (next_addr s),
               lru := take 4096 ((request_key year code g, next_addr s) # lru s)\<rparr>"
proof -
  let ?k = "request_key year code g"
  let ?c = "resolve_code_for_geo code g"
  have k: "?k = (year, ?c, dataset_for ?c, g ''for'', g ''in'')"
    by (simp add: request_key_def Let_def)
  show ?thesis
  proof (cases "map_of (lru s) ?k")
    case (Some a)
    with assms k show ?thesis
      by (intro lru_hit [of a]) (auto simp: call_api_unfold u_call_api_cached_def Let_def)
  next
    case None
    obtain r0 s0 where u: "call_api_uncached e year ?c (dataset_for ?c) (g ''for'') (g ''in'') s = (r0, s0)"
      by (cases "call_api_uncached e year ?c (dataset_for ?c) (g ''for'') (g ''in'') s")
    from u show ?thesis
    proof (cases rule: call_api_uncached_cases)
      case (raised err)
      with assms None k u show ?thesis
        by (intro that(2) [of err]) (auto simp: call_api_unfold u_call_api_cached_def Let_def)
    next
      case (returned s2 t)
      from sends_only_fields [OF returned(2)] have "lru s2 = lru s" by simp
      with returned assms None k u show ?thesis
        by (intro fetched [of s2 t]) (auto simp: call_api_unfold u_call_api_cached_def Let_def)
    qed
  qed
qed

lemma call_api_result_allocated:
  assumes "wf_state s" and "call_api e year code g s = (Inr a, s')"
  shows "a < next_addr s' \<and> next_addr s \<le> next_addr s'"
  using assms(2)
proof (cases rule: call_api_cases)
  case (lru_hit b)
  then have "(request_key year code g, a) \<in> set (lru s)" by (auto dest: map_of_SomeD)
  then have "a \<in> snd ` set (lru s)" by force
  with assms(1) lru_hit show ?thesis by (auto simp: wf_state_def)
next
  case (raised err)
  then show ?thesis by simp
next
  case (fetched s2 t)
  then show ?thesis by simp
qed

lemma wf_state_cache: "wf_state s \<Longrightarrow> u_cache s k = Some (d, ts) \<Longrightarrow> d < next_addr s"
  unfolding wf_state_def using ranI [of "u_cache s" k "(d, ts)"] by force

lemma timedelta_60: "timedelta 60 = Inr (timedelta_minutes 60)"
  by (simp add: timedelta_def)

lemma call_api_ttl_hit:
  assumes "u_cache s (request_key year code g) = Some (d, ts)"
    and "timedelta ttl_minutes = Inr ttl" and "now - ts < ttl"
  shows "call_api_ttl e now year code g ttl_minutes s =
           (Inr (next_addr s),
            s\<lparr>heap := (heap s)(next_addr s := heap s d), next_addr := Suc (next_addr s)\<rparr>)"
  using assms by (simp add: call_api_ttl_def Let_def df_copy_def new_table_def)

lemma call_api_ttl_overflow:
  assumes "u_cache s (request_key year code g) = Some (d, ts)"
    and "timedelta ttl_minutes = Inl err"
  shows "call_api_ttl e now year code g ttl_minutes s = (Inl err, s)"
  using assms by (simp add: call_api_ttl_def Let_def)

lemma call_api_ttl_refetch:
  assumes "u_cache s (request_key year code g) = None
           \<or> (\<exists>d ts ttl. u_cache s (request_key year code g) = Some (d, ts)
                  \<and> timedelta ttl_minutes = Inr ttl \<and> \<not> now - ts < ttl)"
  shows "call_api_ttl e now year code g ttl_minutes s =
           (case call_api e year code g s of
              (Inl err, s') \<Rightarrow> (Inl err, s')
            | (Inr df, s') \<Rightarrow>
                (Inr df, s'\<lparr>heap := (heap s')(next_addr s' := heap s' df),
                            next_addr := Suc (next_addr s'),
                            u_cache := (u_cache s')(request_key year code g \<mapsto> (next_addr s', now))\<rparr>))"
  using assms
  by (auto simp: call_api_ttl_def Let_def df_copy_def new_table_def io_bind_def io_return_def
      split: prod.splits sum.splits option.splits)

lemma call_api_ttl_paths:
  obtains (hit) d ts ttl where "u_cache s (request_key year code g) = Some (d, ts)"
      "timedelta ttl_minutes = Inr ttl" "now - ts < ttl"
  | (overflow) d ts err where "u_cache s (request_key year code g) = Some (d, ts)"
      "timedelta ttl_minutes = Inl err"
  | (refetch) "u_cache s (request_key year code g) = None
           \<or> (\<exists>d ts ttl. u_cache s (request_key year code g) = Some (d, ts)
                  \<and> timedelta ttl_minutes = Inr ttl \<and> \<not> now - ts < ttl)"
proof (cases "u_cache s (request_key year code g)")
  case None
  then show ?thesis by (intro refetch) simp
next
  case (Some v)
  obtain d ts where v: "v = (d, ts)" by (cases v)
  show ?thesis
  proof (cases "timedelta ttl_minutes")
    case (Inl err)
    with Some v show ?thesis by (intro overflow [of d ts err]) simp_all
  next
    case (Inr ttl)
    show ?thesis
    proof (cases "now - ts < ttl")
      case True
      with Some v Inr show ?thesis by (intro hit [of d ts ttl]) simp_all
    next
      case False
      with Some v Inr show ?thesis by (intro refetch) simp
    qed
  qed
qed

lemma wf_state_init: "wf_state init_state"
  by (simp add: wf_state_def init_state_def)

lemma first_call_result:
  "call_api_ttl demo_env 0 2023 ''DP05_0001E'' CITY_GEO 60 init_state = (Inr 0, after_first_call)"
proof -
  have "fst (call_api_ttl demo_env 0 2023 ''DP05_0001E'' CITY_GEO 60 init_state) = Inr 0"
    by code_simp
  then show ?thesis
    unfolding after_first_call_def by (metis prod.collapse)
qed

lemma first_call_entry:
  "u_cache after_first_call (request_key 2023 ''DP05_0001E'' CITY_GEO) = Some (1, 0)"
  by code_simp

lemma expired_entry_served_by_lru:
  assumes "map_of (lru s) (request_key year code g) = Some a"
    and "u_cache s (request_key year code g) = Some (d, ts)"
    and "timedelta ttl_minutes = Inr ttl" and "\<not> now - ts < ttl"
  shows "\<exists>s'. call_api_ttl e now year code g ttl_minutes s = (Inr a, s') \<and> sent s' = sent s"
proof -
  obtain r0 s0 where c: "call_api e year code g s = (r0, s0)"
    by (cases "call_api e year code g s")
  from c assms(1) have "r0 = Inr a \<and> sent s0 = sent s"
    by (cases rule: call_api_cases) auto
  with c assms(2,3,4) call_api_ttl_refetch [of s year code g ttl_minutes now e]
  show ?thesis by auto
qed

text \<open>
  The references in the caches stay valid: \<open>wf_state\<close> holds at the start and is kept by
  every call of \<open>call_api_ttl\<close>.
\<close>

lemma wf_state_alloc:
  "wf_state s \<Longrightarrow> wf_state (s\<lparr>heap := h, next_addr := Suc (next_addr s)\<rparr>)"
  by (auto simp: wf_state_def less_Suc_eq)

lemma wf_state_sends_only:
  assumes "sends_only n s s'" and "wf_state s"
  shows "wf_state s'"
proof -
  from sends_only_fields [OF assms(1)]
  have "lru s' = lru s" "u_cache s' = u_cache s" "u_multi_cache s' = u_multi_cache s"
    "next_addr s' = next_addr s" by simp_all
  with assms(2) show ?thesis by (simp add: wf_state_def)
qed

lemma call_api_wf:
  assumes "wf_state s" and "call_api e year code g s = (r, s')"
  shows "wf_state s'"
  using assms(2)
proof (cases rule: call_api_cases)
  case (lru_hit a)
  then have "(request_key year code g, a) \<in> set (lru s)" by (auto dest: map_of_SomeD)
  with assms(1) lru_hit(3) show ?thesis
    by (force simp: wf_state_def)
next
  case (raised err)
  with assms(1) show ?thesis by (auto intro: wf_state_sends_only)
next
  case (fetched s2 t)
  from wf_state_sends_only [OF fetched(3) assms(1)] have w2: "wf_state s2" .
  from sends_only_fields [OF fetched(3)] have f: "next_addr s2 = next_addr s" "lru s2 = lru s"
    by simp_all
  have "set (take 4096 ((request_key year code g, next_addr s) # lru s))
          \<subseteq> insert (request_key year code g, next_addr s) (set (lru s))"
    using set_take_subset [of 4096 "(request_key year code g, next_addr s) # lru s"] by simp
  with w2 f fetched(5) show ?thesis
    by (fastforce simp: wf_state_def less_Suc_eq)
qed

lemma call_api_ttl_wf:
  assumes "wf_state s" and "call_api_ttl e now year code g ttl_minutes s = (r, s')"
  shows "wf_state s'"
proof -
  let ?k = "request_key year code g"
  show ?thesis
  proof (cases rule: call_api_ttl_paths [of s year code g ttl_minutes now])
    case (hit d ts ttl)
    from assms(2) call_api_ttl_hit [OF hit, of e]
    have "s' = s\<lparr>heap := (heap s)(next_addr s := heap s d), next_addr := Suc (next_addr s)\<rparr>"
      by auto
    with assms(1) show ?thesis by (simp add: wf_state_alloc)
  next
    case (overflow d ts err)
    from assms(2) call_api_ttl_overflow [OF overflow, of e now] have "s' = s" by simp
    with assms(1) show ?thesis by simp
  next
    case refetch
    obtain r0 s0 where c: "call_api e year code g s = (r0, s0)"
      by (cases "call_api e year code g s")
    from call_api_wf [OF assms(1) c] have w0: "wf_state s0" .
    show ?thesis
    proof (cases r0)
      case (Inl err)
      with assms(2) call_api_ttl_refetch [OF refetch, of e] c w0 show ?thesis by simp
    next
      case (Inr df)
      with assms(2) call_api_ttl_refetch [OF refetch, of e] c
      have s': "s' = s0\<lparr>heap := (heap s0)(next_addr s0 := heap s0 df),
                            next_addr := Suc (next_addr s0),
                            u_cache := (u_cache s0)(?k \<mapsto> (next_addr s0, now))\<rparr>" by simp
      have "ran ((u_cache s0)(?k \<mapsto> (next_addr s0, now)))
              \<subseteq> insert (next_addr s0, now) (ran (u_cache s0))"
        by (auto simp: ran_def split: if_splits)
      with w0 show ?thesis unfolding s' wf_state_def
        by (fastforce simp: less_Suc_eq)
    qed
  qed
qed

lemma refetch_returns_lru_object:
  assumes "call_api e year code g s = (Inr a, s')"
  shows "map_of (lru s') (request_key year code g) = Some a"
  using assms by (cases rule: call_api_cases) simp_all

text \<open>
  C5. From a state whose caches hold references to existing tables, let a first call of
  \<open>call_api_ttl\<close> return a table. Then the TTL cache holds an entry for the key of the
  inputs, and every second call with the same year, code and geography made while the age
  of that entry is less than the TTL, a TTL that \<open>timedelta\<close> can hold, returns a table
  equal to the one the first call returned, leaves that one as it is, and sends no
  request. With a number of minutes beyond what \<open>timedelta\<close> can hold the second call
  raises its error instead.
\<close>

theorem call_api_ttl_second_call_within_ttl:
  assumes wf: "wf_state s"
    and first: "call_api_ttl e now1 year code g ttl1 s = (Inr a1, s1)"
  shows "\<exists>d ts. u_cache s1 (request_key year code g) = Some (d, ts) \<and>
           (\<forall>now2 ttl2 ttl. timedelta ttl2 = Inr ttl \<and> now2 - ts < ttl \<longrightarrow>
              (\<exists>a2 s2. call_api_ttl e now2 year code g ttl2 s1 = (Inr a2, s2)
                 \<and> heap s2 a2 = heap s1 a1 \<and> heap s2 a1 = heap s1 a1 \<and> sent s2 = sent s1))
           \<and> (\<forall>now2 ttl2 err. timedelta ttl2 = Inl err \<longrightarrow>
                call_api_ttl e now2 year code g ttl2 s1 = (Inl err, s1))"
proof -
  let ?k = "request_key year code g"
  show ?thesis
  proof (cases rule: call_api_ttl_paths [of s year code g ttl1 now1])
    case (hit d ts ttl)
    from first call_api_ttl_hit [OF hit, of e]
    have a1: "a1 = next_addr s"
      and s1: "s1 = s\<lparr>heap := (heap s)(next_addr s := heap s d), next_addr := Suc (next_addr s)\<rparr>"
      by auto
    from wf hit(1) have d: "d < next_addr s" by (rule wf_state_cache)
    have e1: "u_cache s1 ?k = Some (d, ts)" using s1 hit(1) by simp
    have A: "\<exists>a2 s2. call_api_ttl e now2 year code g ttl2 s1 = (Inr a2, s2)
                 \<and> heap s2 a2 = heap s1 a1 \<and> heap s2 a1 = heap s1 a1 \<and> sent s2 = sent s1"
      if "timedelta ttl2 = Inr w" "now2 - ts < w" for now2 ttl2 w
      using call_api_ttl_hit [OF e1 that, of e] d a1 s1 by auto
    have B: "call_api_ttl e now2 year code g ttl2 s1 = (Inl err, s1)"
      if "timedelta ttl2 = Inl err" for now2 ttl2 err
      by (rule call_api_ttl_overflow [OF e1 that])
    from e1 A B show ?thesis by blast
  next
    case (overflow d ts err)
    from first call_api_ttl_overflow [OF overflow, of e now1] show ?thesis by simp
  next
    case refetch
    obtain r0 s0 where c: "call_api e year code g s = (r0, s0)"
      by (cases "call_api e year code g s")
    from first call_api_ttl_refetch [OF refetch, of e] c
    have r0: "r0 = Inr a1"
      and s1: "s1 = s0\<lparr>heap := (heap s0)(next_addr s0 := heap s0 a1),
                            next_addr := Suc (next_addr s0),
                            u_cache := (u_cache s0)(?k \<mapsto> (next_addr s0, now1))\<rparr>"
      by (auto split: sum.splits)
    from call_api_result_allocated [OF wf] c r0 have lt: "a1 < next_addr s0" by simp
    have e1: "u_cache s1 ?k = Some (next_addr s0, now1)" using s1 by simp
    have A: "\<exists>a2 s2. call_api_ttl e now2 year code g ttl2 s1 = (Inr a2, s2)
                 \<and> heap s2 a2 = heap s1 a1 \<and> heap s2 a1 = heap s1 a1 \<and> sent s2 = sent s1"
      if "timedelta ttl2 = Inr w" "now2 - now1 < w" for now2 ttl2 w
      using call_api_ttl_hit [OF e1 that, of e] lt s1 by auto
    have B: "call_api_ttl e now2 year code g ttl2 s1 = (Inl err, s1)"
      if "timedelta ttl2 = Inl err" for now2 ttl2 err
      by (rule call_api_ttl_overflow [OF e1 that])
    from e1 A B show ?thesis by blast
  qed
qed

theorem call_api_ttl_second_call_within_ttl_witness:
  "wf_state init_state
   \<and> call_api_ttl demo_env 0 2023 ''DP05_0001E'' CITY_GEO 60 init_state = (Inr 0, after_first_call)
   \<and> u_cache after_first_call (request_key 2023 ''DP05_0001E'' CITY_GEO) = Some (1, 0)
   \<and> timedelta 60 = Inr (timedelta_minutes 60)
   \<and> (1000 :: int) - 0 < timedelta_minutes 60
   \<and> (\<exists>a2 s2. call_api_ttl demo_env 1000 2023 ''DP05_0001E'' CITY_GEO 60 after_first_call = (Inr a2, s2)
          \<and> heap s2 a2 = heap after_first_call 0 \<and> heap s2 0 = heap after_first_call 0
          \<and> sent s2 = sent after_first_call)
   \<and> timedelta 1440000000000 = Inl OverflowError
   \<and> call_api_ttl demo_env 1000 2023 ''DP05_0001E'' CITY_GEO 1440000000000 after_first_call
       = (Inl OverflowError, after_first_call)"
proof -
  have fresh: "(1000 :: int) - 0 < timedelta_minutes 60" by (simp add: timedelta_minutes_def)
  have over: "timedelta 1440000000000 = Inl OverflowError" by (simp add: timedelta_def)
  from call_api_ttl_second_call_within_ttl [OF wf_state_init first_call_result]
  obtain d ts where
    e: "u_cache after_first_call (request_key 2023 ''DP05_0001E'' CITY_GEO) = Some (d, ts)"
    and h: "\<And>now2 ttl2 ttl. timedelta ttl2 = Inr ttl \<Longrightarrow> now2 - ts < ttl \<Longrightarrow>
              (\<exists>a2 s2. call_api_ttl demo_env now2 2023 ''DP05_0001E'' CITY_GEO ttl2 after_first_call = (Inr a2, s2)
                 \<and> heap s2 a2 = heap after_first_call 0 \<and> heap s2 0 = heap after_first_call 0
                 \<and> sent s2 = sent after_first_call)"
    and o: "\<And>now2 ttl2 err. timedelta ttl2 = Inl err \<Longrightarrow>
              call_api_ttl demo_env now2 2023 ''DP05_0001E'' CITY_GEO ttl2 after_first_call
                = (Inl err, after_first_call)"
    by blast
  from e first_call_entry have "ts = 0" by simp
  with h [OF timedelta_60, of 1000] fresh o [OF over, of 1000]
  show ?thesis using wf_state_init first_call_result first_call_entry timedelta_60 over by blast
qed

text \<open>
  C1. The executor under \<open>call_api_ttl\<close> is wrapped in an \<open>lru_cache\<close> that never expires.
  After a first call at time 0 the TTL cache holds the entry and one request was sent. A
  second call 60 minutes later finds the entry expired, and yet sends no request: it gets
  the object of the \<open>lru_cache\<close> back, and stores a copy of that old table under a new
  timestamp.
\<close>

theorem expired_entry_replayed_from_lru:
  "u_cache after_first_call (request_key 2023 ''DP05_0001E'' CITY_GEO) = Some (1, 0)
   \<and> length (sent after_first_call) = 1
   \<and> \<not> (3600000000 - 0 < timedelta_minutes 60)
   \<and> fst (call_api_ttl demo_env 3600000000 2023 ''DP05_0001E'' CITY_GEO 60 after_first_call)
       = Inr 0
   \<and> sent after_expired_call = sent after_first_call
   \<and> u_cache after_expired_call (request_key 2023 ''DP05_0001E'' CITY_GEO)
       = Some (2, 3600000000)
   \<and> heap after_expired_call 2 = heap after_first_call 0"
  by code_simp

text \<open>
  C4. On a miss \<open>call_api_ttl\<close> returns the very object that the \<open>lru_cache\<close> holds, not a
  copy: the first call returns the address 0, which is the address cached by the
  \<open>lru_cache\<close>, so a column added by the caller changes the cached table. The next call
  after expiry sends no request, returns that changed table and stores a copy of it in the
  TTL cache.
\<close>

theorem miss_returns_the_lru_object:
  "fst (call_api_ttl demo_env 0 2023 ''DP05_0001E'' CITY_GEO 60 init_state) = Inr 0
   \<and> map_of (lru after_first_call) (request_key 2023 ''DP05_0001E'' CITY_GEO) = Some 0
   \<and> heap (mutate 0 add_geo_column after_first_call) 0 \<noteq> heap after_first_call 0
   \<and> heap (mutate 0 add_geo_column after_first_call) 0 = add_geo_column (heap after_first_call 0)
   \<and> fst (call_api_ttl demo_env 3600000000 2023 ''DP05_0001E'' CITY_GEO 60
             (mutate 0 add_geo_column after_first_call)) = Inr 0
   \<and> sent after_mutated_expired_call = sent after_first_call
   \<and> u_cache after_mutated_expired_call (request_key 2023 ''DP05_0001E'' CITY_GEO)
       = Some (2, 3600000000)
   \<and> heap after_mutated_expired_call 2 = add_geo_column (heap after_first_call 0)"
  by code_simp

subsection \<open>The ZCTA quirk handler\<close>

text \<open>
  C3. A ZCTA request without a containing-region clause, to a service that answers every
  request with HTTP 400 and an ambiguous-geography body: the first attempt goes out
  without the clause, the retry with the clause \<open>state:06\<close>, and the last attempt, made
  because the retry was still 400, carries the clause again. The handler decides by the
  parameters of the first attempt, so its last attempt repeats the retry instead of
  flipping it. The call then raises the HTTP error.
\<close>

theorem quirk_final_attempt_repeats_retry:
  "fst (call_api ambiguous_env 2023 ''B01003_001E'' (zcta_geo ''90802'') init_state)
     = Inl (HTTPError 400)
   \<and> map (p_in \<circ> query) (sent after_ambiguous_call)
       = [None, Some ''state:06'', Some ''state:06'']"
  by code_simp


subsection \<open>Multi-variable batching\<close>

lemma sends_only_new_requests:
  "sends_only n s s' \<Longrightarrow> sent s' = sent s @ new_requests s s' \<and> length (new_requests s s') \<le> n"
  by (auto simp: sends_only_iff new_requests_def)

lemma bucket_tail:
  "io_bind (raise_for_status resp) (\<lambda>_.
     io_bind (io_lift (parse_table resp)) (\<lambda>df.
     io_return (set_column (Str ''Year'') (Ival year) df))) s0
   = ((if 400 \<le> status_code resp \<and> status_code resp < 600 then Inl (HTTPError (status_code resp))
       else case parse_table resp of
              Inl err \<Rightarrow> Inl err
            | Inr df \<Rightarrow> Inr (set_column (Str ''Year'') (Ival year) df)), s0)"
  by (simp add: io_bind_def io_return_def io_raise_def io_lift_def raise_for_status_def
      split: sum.splits)

lemma family_table_tail:
  assumes "SESSION_get e (past @ butlast reqs) (last reqs) = Inr resp"
  shows "family_table e year past reqs
       = (case (if 400 \<le> status_code resp \<and> status_code resp < 600
                then Inl (HTTPError (status_code resp))
                else case parse_table resp of
                       Inl err \<Rightarrow> Inl err
                     | Inr df \<Rightarrow> Inr (set_column (Str ''Year'') (Ival year) df))
          of Inl err \<Rightarrow> None | Inr t \<Rightarrow> Some t)"
  using assms by (simp add: family_table_def split: sum.splits)

lemma family_table_raised:
  assumes "SESSION_get e (past @ butlast reqs) (last reqs) = Inl err"
  shows "family_table e year past reqs = None"
  using assms by (simp add: family_table_def)

lemma fetch_bucket_exact:
  assumes "fetch_bucket e year g dataset vars s = (r, s')"
  shows "s' = s\<lparr>sent := sent s @ family_run e year g dataset vars (sent s)\<rparr>
     \<and> family_table e year (sent s) (family_run e year g dataset vars (sent s))
         = (case r of Inl err \<Rightarrow> None | Inr t \<Rightarrow> Some t)"
proof -
  let ?bq = "bucket_request e year g dataset vars"
  let ?rq = "retry_request e year g dataset vars"
  let ?p = "bucket_params e g vars"
  let ?z = "sublist ''zip code tabulation area'' (get_or_empty (g ''for''))"
  let ?s1 = "s\<lparr>sent := sent s @ [?bq]\<rparr>"
  let ?s2 = "s\<lparr>sent := sent s @ [?bq, ?rq]\<rparr>"
  let ?run = "family_run e year g dataset vars (sent s)"
  let ?tail = "\<lambda>r. io_bind (raise_for_status r) (\<lambda>_.
             io_bind (io_lift (parse_table r)) (\<lambda>df.
             io_return (set_column (Str ''Year'') (Ival year) df)))"
  have pf: "p_for ?p = g ''for''" and pi: "p_in ?p = g ''in''"
    by (simp_all add: bucket_params_def)
  have g1: "http_get e \<lparr>url_year = year, url_dataset = dataset, query = ?p, req_timeout = 15\<rparr> s
              = (SESSION_get e (sent s) ?bq, ?s1)"
    by (simp add: http_get_def bucket_request_def)
  have g2: "http_get e \<lparr>url_year = year, url_dataset = dataset, query = ?p\<lparr>p_in := v\<rparr>, req_timeout = 60\<rparr> ?s1
              = (SESSION_get e (sent s @ [?bq]) ?rq, ?s2)"
    if "v = (if g ''in'' = None then Some ''state:06'' else None)" for v
    using that by (simp add: http_get_def retry_request_def)
  from assms have b: "io_bind (http_get e \<lparr>url_year = year, url_dataset = dataset, query = ?p, req_timeout = 15\<rparr>)
     (\<lambda>r. io_bind
           (if status_code r = 400 \<and> ?z
            then
              (if sublist ''ambiguous geography'' (lower (body_text r)) \<and> g ''in'' = None
                  then http_get e \<lparr>url_year = year, url_dataset = dataset, query = ?p\<lparr>p_in := Some ''state:06''\<rparr>, req_timeout = 60\<rparr>
                  else if sublist ''unsupported geography hierarchy'' (lower (body_text r)) \<and> g ''in'' \<noteq> None
                  then http_get e \<lparr>url_year = year, url_dataset = dataset, query = ?p\<lparr>p_in := None\<rparr>, req_timeout = 60\<rparr>
                  else io_return r)
            else io_return r) ?tail) s = (r, s')"
    unfolding fetch_bucket_def Let_def pf pi .
  from b show ?thesis
  proof (cases rule: io_bind_cases)
    case (raised err)
    with g1 have r0: "SESSION_get e (sent s) ?bq = Inl err" and s': "s' = ?s1" by simp_all
    from r0 have run: "?run = [?bq]" by (simp add: family_run_def wants_retry_def)
    from r0 have "family_table e year (sent s) [?bq] = None"
      by (intro family_table_raised [of _ _ _ err]) simp
    with s' run raised(2) show ?thesis by simp
  next
    case (returned r0 sa)
    with g1 have r0: "SESSION_get e (sent s) ?bq = Inr r0" and sa: "sa = ?s1" by simp_all
    show ?thesis
    proof (cases "wants_retry e g (sent s) ?bq")
      case False
      then have run: "?run = [?bq]" by (simp add: family_run_def)
      from False r0 returned(2) have "io_bind (io_return r0) ?tail ?s1 = (r, s')"
        unfolding sa by (auto simp: wants_retry_def split: if_splits)
      then have "?tail r0 ?s1 = (r, s')" by (simp add: io_bind_def io_return_def)
      then have s': "s' = ?s1" and r: "r = (if 400 \<le> status_code r0 \<and> status_code r0 < 600
                then Inl (HTTPError (status_code r0))
                else case parse_table r0 of
                       Inl err \<Rightarrow> Inl err
                     | Inr df \<Rightarrow> Inr (set_column (Str ''Year'') (Ival year) df))"
        unfolding bucket_tail by simp_all
      from r0 have "SESSION_get e (sent s @ butlast [?bq]) (last [?bq]) = Inr r0" by simp
      from family_table_tail [OF this, of year] r s' run show ?thesis by simp
    next
      case True
      then have run: "?run = [?bq, ?rq]" by (simp add: family_run_def)
      from True r0 returned(2) have bb: "io_bind (http_get e ?rq) ?tail ?s1 = (r, s')"
        unfolding sa by (auto simp: wants_retry_def retry_request_def split: if_splits)
      have g3: "http_get e ?rq ?s1 = (SESSION_get e (sent s @ [?bq]) ?rq, ?s2)"
        by (simp add: http_get_def)
      from bb show ?thesis
      proof (cases rule: io_bind_cases)
        case (raised err)
        with g3 have r1: "SESSION_get e (sent s @ [?bq]) ?rq = Inl err" and s': "s' = ?s2"
          by simp_all
        from r1 have "family_table e year (sent s) [?bq, ?rq] = None"
          by (intro family_table_raised [of _ _ _ err]) simp
        with s' run raised(2) show ?thesis by simp
      next
        case (returned r1 sb)
        with g3 have r1: "SESSION_get e (sent s @ [?bq]) ?rq = Inr r1" and sb: "sb = ?s2"
          by simp_all
        from returned(2) have s': "s' = ?s2" and r: "r = (if 400 \<le> status_code r1 \<and> status_code r1 < 600
                then Inl (HTTPError (status_code r1))
                else case parse_table r1 of
                       Inl err \<Rightarrow> Inl err
                     | Inr df \<Rightarrow> Inr (set_column (Str ''Year'') (Ival year) df))"
          unfolding bucket_tail sb by simp_all
        from r1 have "SESSION_get e (sent s @ butlast [?bq, ?rq]) (last [?bq, ?rq]) = Inr r1" by simp
        from family_table_tail [OF this, of year] r s' run show ?thesis by simp
      qed
    qed
  qed
qed


lemma buckets_families:
  "buckets codes = [(''acs/acs5/profile'', family_codes ''acs/acs5/profile'' codes),
                    (''acs/acs5'', family_codes ''acs/acs5'' codes)]"
  by (simp add: buckets_def family_codes_def)

lemma fetch_family_step:
  assumes "fetch_buckets e year g ((d, vars) # rest) frames s = (r, s')"
  obtains (skip) "vars = []" "fetch_buckets e year g rest frames s = (r, s')"
  | (raised) err where "vars \<noteq> []" "r = Inl err"
      "s' = s\<lparr>sent := sent s @ family_run e year g d vars (sent s)\<rparr>"
      "family_table e year (sent s) (family_run e year g d vars (sent s)) = None"
  | (fetched) t where "vars \<noteq> []"
      "family_table e year (sent s) (family_run e year g d vars (sent s)) = Some t"
      "fetch_buckets e year g rest (frames @ [t])
         (s\<lparr>sent := sent s @ family_run e year g d vars (sent s)\<rparr>) = (r, s')"
proof (cases "vars = []")
  case True
  with assms show ?thesis by (intro skip) simp_all
next
  case False
  with assms have "io_bind (fetch_bucket e year g d vars)
         (\<lambda>df. fetch_buckets e year g rest (frames @ [df])) s = (r, s')" by simp
  then show ?thesis
  proof (cases rule: io_bind_cases)
    case (raised err)
    from fetch_bucket_exact [OF raised(1)] raised(2) False show ?thesis
      by (intro that(2) [of err]) simp_all
  next
    case (returned t s1)
    from fetch_bucket_exact [OF returned(1)] returned(2) False show ?thesis
      by (intro fetched [of t]) simp_all
  qed
qed

lemma fetch_buckets_exact:
  fixes np nd :: "request list"
  assumes "fetch_buckets e year g [(d1, P), (d2, D)] [] s = (r, s')"
  defines "np \<equiv> (if P = [] then [] else family_run e year g d1 P (sent s))"
  defines "nd \<equiv> (if D = [] \<or> (P \<noteq> [] \<and> family_table e year (sent s) np = None) then []
                  else family_run e year g d2 D (sent s @ np))"
  shows "s' = s\<lparr>sent := sent s @ np @ nd\<rparr>
     \<and> (case r of
          Inl err \<Rightarrow> True
        | Inr frames \<Rightarrow>
            map Some frames
              = (if P = [] then [] else [family_table e year (sent s) np])
                @ (if D = [] then [] else [family_table e year (sent s @ np) nd]))"
  using assms(1)
proof (cases rule: fetch_family_step)
  case skip
  then have np: "np = []" by (simp add: np_def)
  from skip(2) show ?thesis
  proof (cases rule: fetch_family_step)
    case skip
    then show ?thesis using np \<open>P = []\<close> by (auto simp: nd_def io_return_def)
  next
    case (raised err)
    then show ?thesis using np \<open>P = []\<close> by (auto simp: nd_def)
  next
    case (fetched t)
    then show ?thesis using np \<open>P = []\<close> by (auto simp: nd_def io_return_def)
  qed
next
  case (raised err)
  then show ?thesis by (auto simp: np_def nd_def)
next
  case (fetched t)
  then have np: "np = family_run e year g d1 P (sent s)" by (simp add: np_def)
  from fetched(3) show ?thesis
  proof (cases rule: fetch_family_step)
    case skip
    then show ?thesis using np fetched(1,2) by (auto simp: nd_def io_return_def)
  next
    case (raised err)
    then show ?thesis using np fetched(1,2) by (auto simp: nd_def)
  next
    case (fetched u)
    then show ?thesis using np \<open>P \<noteq> []\<close>
        \<open>family_table e year (sent s) (family_run e year g d1 P (sent s)) = Some t\<close>
      by (auto simp: nd_def io_return_def)
  qed
qed


lemma family_run_facts:
  "family_run e year g d vars past \<noteq> []"
  "length (family_run e year g d vars past) \<le> 2"
  "\<not> sublist ''zip code tabulation area'' (get_or_empty (g ''for''))
     \<Longrightarrow> length (family_run e year g d vars past) \<le> 1"
  "filter (\<lambda>rq. url_dataset rq = d') (family_run e year g d vars past)
     = (if d' = d then family_run e year g d vars past else [])"
  by (auto simp: family_run_def wants_retry_def bucket_request_def retry_request_def
      split: sum.splits)

lemma concat_frames_rows:
  "concat_frames fs = Inr t \<Longrightarrow> length (rows t) = sum_list (map (\<lambda>f. length (rows f)) fs)"
  by (auto simp: concat_frames_def Let_def length_concat comp_def split: list.splits if_splits)

lemma call_api_vars_exact:
  fixes np nd :: "request list" and P D :: "string list"
  assumes "call_api_vars e year codes g s = (r, s')"
  defines "P \<equiv> family_codes ''acs/acs5/profile'' codes"
  defines "D \<equiv> family_codes ''acs/acs5'' codes"
  defines "np \<equiv> (if P = [] then [] else family_run e year g ''acs/acs5/profile'' P (sent s))"
  defines "nd \<equiv> (if D = [] \<or> (P \<noteq> [] \<and> family_table e year (sent s) np = None) then []
                  else family_run e year g ''acs/acs5'' D (sent s @ np))"
  shows "sent s' = sent s @ np @ nd \<and> lru s' = lru s \<and> u_cache s' = u_cache s
     \<and> u_multi_cache s' = u_multi_cache s
     \<and> (\<forall>a. r = Inr a \<longrightarrow> a = next_addr s \<and> next_addr s' = Suc a
           \<and> (\<forall>b. b \<noteq> a \<longrightarrow> heap s' b = heap s b)
           \<and> (\<exists>frames.
                 map Some frames
                   = (if P = [] then [] else [family_table e year (sent s) np])
                     @ (if D = [] then [] else [family_table e year (sent s @ np) nd])
                 \<and> (if frames = [] then heap s' a = \<lparr>columns = [], rows = []\<rparr>
                    else concat_frames frames = Inr (heap s' a))))"
proof -
  from assms(1) have "io_bind (fetch_buckets e year g [(''acs/acs5/profile'', P), (''acs/acs5'', D)] [])
       (\<lambda>frames.
       if frames \<noteq> [] then io_bind (io_lift (concat_frames frames)) new_table
       else new_table \<lparr>columns = [], rows = []\<rparr>) s = (r, s')"
    by (simp add: call_api_vars_def buckets_families P_def D_def)
  then show ?thesis
  proof (cases rule: io_bind_cases)
    case (raised err)
    from fetch_buckets_exact [OF raised(1)] raised(2) show ?thesis
      by (simp add: np_def nd_def)
  next
    case (returned frames s1)
    from fetch_buckets_exact [OF returned(1)]
    have s1: "s1 = s\<lparr>sent := sent s @ np @ nd\<rparr>"
      and fr: "map Some frames
                   = (if P = [] then [] else [family_table e year (sent s) np])
                     @ (if D = [] then [] else [family_table e year (sent s @ np) nd])"
      by (simp_all add: np_def nd_def)
    from returned(2) have "sent s' = sent s1 \<and> lru s' = lru s1 \<and> u_cache s' = u_cache s1
        \<and> u_multi_cache s' = u_multi_cache s1
        \<and> (\<forall>a. r = Inr a \<longrightarrow> a = next_addr s1 \<and> next_addr s' = Suc a
                \<and> (\<forall>b. b \<noteq> a \<longrightarrow> heap s' b = heap s1 b)
                \<and> (if frames = [] then heap s' a = \<lparr>columns = [], rows = []\<rparr>
                    else concat_frames frames = Inr (heap s' a)))"
      by (auto simp: io_bind_def io_lift_def new_table_def split: if_splits sum.splits)
    then have "sent s' = sent s @ np @ nd \<and> lru s' = lru s \<and> u_cache s' = u_cache s
        \<and> u_multi_cache s' = u_multi_cache s
        \<and> (\<forall>a. r = Inr a \<longrightarrow> a = next_addr s \<and> next_addr s' = Suc a
                \<and> (\<forall>b. b \<noteq> a \<longrightarrow> heap s' b = heap s b)
                \<and> (if frames = [] then heap s' a = \<lparr>columns = [], rows = []\<rparr>
                    else concat_frames frames = Inr (heap s' a)))"
      unfolding s1 by simp
    with fr show ?thesis by blast
  qed
qed

lemma family_codes_cover:
  "codes \<noteq> [] \<Longrightarrow> family_codes ''acs/acs5/profile'' codes \<noteq> [] \<or> family_codes ''acs/acs5'' codes \<noteq> []"
proof -
  assume "codes \<noteq> []"
  then obtain c cs where c: "codes = c # cs" by (cases codes) auto
  have "u_dataset_for c = ''acs/acs5/profile'' \<or> u_dataset_for c = ''acs/acs5''"
    by (simp add: u_dataset_for_def Let_def)
  with c show ?thesis by (auto simp: family_codes_def)
qed

lemma call_api_vars_sends_one:
  assumes "call_api_vars e year codes g s = (r, s')" and "codes \<noteq> []"
  shows "length (sent s) < length (sent s')"
proof -
  from call_api_vars_exact [OF assms(1)] family_codes_cover [OF assms(2)]
    family_run_facts(1) [of e year g]
  show ?thesis by (auto split: if_splits)
qed

text \<open>
  C8, as the code has it. \<open>call_api_vars\<close> partitions the codes by dataset family (prefix
  \<open>DP\<close>, in any case, against the rest) and sends the requests of the profile family
  before those of the detailed family. A family with no code gets no request. A family
  with codes gets one first request, for the year, the family's dataset and exactly the
  family's codes, and, when the geography names a ZCTA and the answer is HTTP 400 with one
  of the two known quirks, one retry with the containing-region clause added or taken
  away: the requests of \<open>family_run\<close>. The detailed family is not asked when the last
  answer to the profile family gave no table, since the call raises there. So there are at
  most 2 requests per family and 4 in all, and at most 1 per family and 2 in all for a
  geography that names no ZCTA. When the call returns, the returned table is the row-wise
  concatenation of the tables read from the last answer to each family that has codes,
  profile first, and the empty table when there is no code.
\<close>

theorem call_api_vars_requests_per_family:
  assumes "call_api_vars e year codes g s = (r, s')"
  shows "sent s' = sent s @ new_requests s s'
     \<and> new_requests s s'
         = family_requests ''acs/acs5/profile'' s s' @ family_requests ''acs/acs5'' s s'
     \<and> family_requests ''acs/acs5/profile'' s s'
         = (if family_codes ''acs/acs5/profile'' codes = [] then []
            else family_run e year g ''acs/acs5/profile'' (family_codes ''acs/acs5/profile'' codes)
                   (sent s))
     \<and> family_requests ''acs/acs5'' s s'
         = (if family_codes ''acs/acs5'' codes = []
               \<or> (family_codes ''acs/acs5/profile'' codes \<noteq> []
                   \<and> family_table e year (sent s) (family_requests ''acs/acs5/profile'' s s') = None)
            then []
            else family_run e year g ''acs/acs5'' (family_codes ''acs/acs5'' codes)
                   (sent s @ family_requests ''acs/acs5/profile'' s s'))
     \<and> length (new_requests s s') \<le> 4
     \<and> (\<forall>d. length (family_requests d s s') \<le> 2)
     \<and> (\<not> sublist ''zip code tabulation area'' (get_or_empty (g ''for'')) \<longrightarrow>
          length (new_requests s s') \<le> 2 \<and> (\<forall>d. length (family_requests d s s') \<le> 1))
     \<and> (\<forall>a. r = Inr a \<longrightarrow>
          (\<exists>frames.
             map Some frames
               = (if family_codes ''acs/acs5/profile'' codes = [] then []
                  else [family_table e year (sent s) (family_requests ''acs/acs5/profile'' s s')])
                 @ (if family_codes ''acs/acs5'' codes = [] then []
                    else [family_table e year (sent s @ family_requests ''acs/acs5/profile'' s s')
                            (family_requests ''acs/acs5'' s s')])
             \<and> (if frames = [] then heap s' a = \<lparr>columns = [], rows = []\<rparr>
                else concat_frames frames = Inr (heap s' a))
             \<and> length (rows (heap s' a)) = sum_list (map (\<lambda>f. length (rows f)) frames)))"
proof -
  let ?z = "sublist ''zip code tabulation area'' (get_or_empty (g ''for''))"
  define P where "P = family_codes ''acs/acs5/profile'' codes"
  define D where "D = family_codes ''acs/acs5'' codes"
  define np where "np = (if P = [] then [] else family_run e year g ''acs/acs5/profile'' P (sent s))"
  define nd where "nd = (if D = [] \<or> (P \<noteq> [] \<and> family_table e year (sent s) np = None) then []
                  else family_run e year g ''acs/acs5'' D (sent s @ np))"
  note X = call_api_vars_exact [OF assms, folded P_def D_def, folded np_def, folded nd_def]
  from X have nr: "new_requests s s' = np @ nd" by (simp add: new_requests_def)
  have fp: "filter (\<lambda>rq. url_dataset rq = d) np = (if d = ''acs/acs5/profile'' then np else [])" for d
    by (simp add: np_def family_run_facts(4))
  have fd: "filter (\<lambda>rq. url_dataset rq = d) nd = (if d = ''acs/acs5'' then nd else [])" for d
    by (simp add: nd_def family_run_facts(4))
  have fr: "family_requests d s s'
      = (if d = ''acs/acs5/profile'' then np else if d = ''acs/acs5'' then nd else [])" for d
    by (simp add: family_requests_def nr fp fd)
  have frp: "family_requests ''acs/acs5/profile'' s s' = np"
    and frd: "family_requests ''acs/acs5'' s s' = nd" by (simp_all add: fr)
  have lp: "length np \<le> 2" and ld: "length nd \<le> 2"
    using family_run_facts(2) [of e year g] by (simp_all add: np_def nd_def)
  have lp1: "length np \<le> 1" and ld1: "length nd \<le> 1" if "\<not> ?z"
    using family_run_facts(3) [where g = g and e = e and year = year, OF that]
    by (simp_all add: np_def nd_def)
  have A: "sent s' = sent s @ new_requests s s'" using X nr by simp
  have B: "new_requests s s'
         = family_requests ''acs/acs5/profile'' s s' @ family_requests ''acs/acs5'' s s'"
    by (simp only: frp frd nr)
  have C: "family_requests ''acs/acs5/profile'' s s'
         = (if P = [] then [] else family_run e year g ''acs/acs5/profile'' P (sent s))"
    by (simp only: frp np_def)
  have D': "family_requests ''acs/acs5'' s s'
         = (if D = [] \<or> (P \<noteq> [] \<and> family_table e year (sent s) (family_requests ''acs/acs5/profile'' s s') = None)
            then [] else family_run e year g ''acs/acs5'' D (sent s @ family_requests ''acs/acs5/profile'' s s'))"
    by (simp only: frp frd nd_def)
  have E: "length (new_requests s s') \<le> 4" using lp ld by (simp add: nr)
  have F: "\<forall>d. length (family_requests d s s') \<le> 2" using lp ld by (simp add: fr)
  have G: "\<not> ?z \<longrightarrow> length (new_requests s s') \<le> 2 \<and> (\<forall>d. length (family_requests d s s') \<le> 1)"
    using lp1 ld1 by (auto simp: nr fr)
  have H: "\<forall>a. r = Inr a \<longrightarrow>
          (\<exists>frames.
             map Some frames
               = (if P = [] then []
                  else [family_table e year (sent s) (family_requests ''acs/acs5/profile'' s s')])
                 @ (if D = [] then []
                    else [family_table e year (sent s @ family_requests ''acs/acs5/profile'' s s')
                            (family_requests ''acs/acs5'' s s')])
             \<and> (if frames = [] then heap s' a = \<lparr>columns = [], rows = []\<rparr>
                else concat_frames frames = Inr (heap s' a))
             \<and> length (rows (heap s' a)) = sum_list (map (\<lambda>f. length (rows f)) frames))"
  proof (intro allI impI)
    fix a assume "r = Inr a"
    with X obtain frames where f1: "map Some frames
                   = (if P = [] then [] else [family_table e year (sent s) np])
                     @ (if D = [] then [] else [family_table e year (sent s @ np) nd])"
      and f2: "if frames = [] then heap s' a = \<lparr>columns = [], rows = []\<rparr>
                    else concat_frames frames = Inr (heap s' a)" by blast
    have "length (rows (heap s' a)) = sum_list (map (\<lambda>f. length (rows f)) frames)"
    proof (cases "frames = []")
      case True
      with f2 show ?thesis by simp
    next
      case False
      with f2 concat_frames_rows [of frames "heap s' a"] show ?thesis by simp
    qed
    with f1 f2 show "\<exists>frames.
             map Some frames
               = (if P = [] then []
                  else [family_table e year (sent s) (family_requests ''acs/acs5/profile'' s s')])
                 @ (if D = [] then []
                    else [family_table e year (sent s @ family_requests ''acs/acs5/profile'' s s')
                            (family_requests ''acs/acs5'' s s')])
             \<and> (if frames = [] then heap s' a = \<lparr>columns = [], rows = []\<rparr>
                else concat_frames frames = Inr (heap s' a))
             \<and> length (rows (heap s' a)) = sum_list (map (\<lambda>f. length (rows f)) frames)"
      unfolding frp frd by blast
  qed
  from A B C D' E F G H show ?thesis unfolding P_def D_def by blast
qed


lemma batch_call_result:
  "call_api_vars demo_env 2023 [''DP05_0001E'', ''B01001_001E''] CITY_GEO init_state
     = (Inr 0, after_batch_call)"
proof -
  have "fst (call_api_vars demo_env 2023 [''DP05_0001E'', ''B01001_001E''] CITY_GEO init_state) = Inr 0"
    by code_simp
  then show ?thesis
    unfolding after_batch_call_def by (metis prod.collapse)
qed

lemma city_not_zcta_substring:
  "\<not> sublist ''zip code tabulation area'' (get_or_empty (CITY_GEO ''for''))"
  by code_simp

lemma batch_call_families:
  "family_codes ''acs/acs5/profile'' [''DP05_0001E'', ''B01001_001E''] = [''DP05_0001E'']"
  "family_codes ''acs/acs5'' [''DP05_0001E'', ''B01001_001E''] = [''B01001_001E'']"
  "family_run demo_env 2023 CITY_GEO ''acs/acs5/profile'' [''DP05_0001E''] (sent init_state)
     = [bucket_request demo_env 2023 CITY_GEO ''acs/acs5/profile'' [''DP05_0001E'']]"
  "family_table demo_env 2023 (sent init_state)
     [bucket_request demo_env 2023 CITY_GEO ''acs/acs5/profile'' [''DP05_0001E'']] \<noteq> None"
  "family_run demo_env 2023 CITY_GEO ''acs/acs5'' [''B01001_001E'']
     (sent init_state @ [bucket_request demo_env 2023 CITY_GEO ''acs/acs5/profile'' [''DP05_0001E'']])
     = [bucket_request demo_env 2023 CITY_GEO ''acs/acs5'' [''B01001_001E'']]"
  by code_simp+

theorem call_api_vars_requests_per_family_witness:
  "call_api_vars demo_env 2023 [''DP05_0001E'', ''B01001_001E''] CITY_GEO init_state
     = (Inr 0, after_batch_call)
   \<and> \<not> sublist ''zip code tabulation area'' (get_or_empty (CITY_GEO ''for''))
   \<and> family_requests ''acs/acs5/profile'' init_state after_batch_call
       = [bucket_request demo_env 2023 CITY_GEO ''acs/acs5/profile'' [''DP05_0001E'']]
   \<and> family_requests ''acs/acs5'' init_state after_batch_call
       = [bucket_request demo_env 2023 CITY_GEO ''acs/acs5'' [''B01001_001E'']]
   \<and> new_requests init_state after_batch_call
       = [bucket_request demo_env 2023 CITY_GEO ''acs/acs5/profile'' [''DP05_0001E''],
          bucket_request demo_env 2023 CITY_GEO ''acs/acs5'' [''B01001_001E'']]
   \<and> length (new_requests init_state after_batch_call) \<le> 2
   \<and> (\<exists>frames. map Some frames
          = [family_table demo_env 2023 []
               [bucket_request demo_env 2023 CITY_GEO ''acs/acs5/profile'' [''DP05_0001E'']],
             family_table demo_env 2023
               [bucket_request demo_env 2023 CITY_GEO ''acs/acs5/profile'' [''DP05_0001E'']]
               [bucket_request demo_env 2023 CITY_GEO ''acs/acs5'' [''B01001_001E'']]]
          \<and> concat_frames frames = Inr (heap after_batch_call 0)
          \<and> length (rows (heap after_batch_call 0)) = sum_list (map (\<lambda>f. length (rows f)) frames))"
proof -
  note T = call_api_vars_requests_per_family [OF batch_call_result]
  note E = batch_call_families
  have s0: "sent init_state = []" by (simp add: init_state_def)
  from T have "family_requests ''acs/acs5/profile'' init_state after_batch_call
         = (if family_codes ''acs/acs5/profile'' [''DP05_0001E'', ''B01001_001E''] = [] then []
            else family_run demo_env 2023 CITY_GEO ''acs/acs5/profile''
                   (family_codes ''acs/acs5/profile'' [''DP05_0001E'', ''B01001_001E''])
                   (sent init_state))" by blast
  then have A: "family_requests ''acs/acs5/profile'' init_state after_batch_call
       = [bucket_request demo_env 2023 CITY_GEO ''acs/acs5/profile'' [''DP05_0001E'']]"
    unfolding E(1) E(3) by simp
  from T have "family_requests ''acs/acs5'' init_state after_batch_call
         = (if family_codes ''acs/acs5'' [''DP05_0001E'', ''B01001_001E''] = []
               \<or> (family_codes ''acs/acs5/profile'' [''DP05_0001E'', ''B01001_001E''] \<noteq> []
                   \<and> family_table demo_env 2023 (sent init_state)
                        (family_requests ''acs/acs5/profile'' init_state after_batch_call) = None)
            then []
            else family_run demo_env 2023 CITY_GEO ''acs/acs5''
                   (family_codes ''acs/acs5'' [''DP05_0001E'', ''B01001_001E''])
                   (sent init_state @ family_requests ''acs/acs5/profile'' init_state after_batch_call))"
    by blast
  then have B: "family_requests ''acs/acs5'' init_state after_batch_call
       = [bucket_request demo_env 2023 CITY_GEO ''acs/acs5'' [''B01001_001E'']]"
    unfolding A E(1) E(2) E(5) using E(4) by simp
  from T have "new_requests init_state after_batch_call
         = family_requests ''acs/acs5/profile'' init_state after_batch_call
           @ family_requests ''acs/acs5'' init_state after_batch_call" by blast
  then have C: "new_requests init_state after_batch_call
       = [bucket_request demo_env 2023 CITY_GEO ''acs/acs5/profile'' [''DP05_0001E''],
          bucket_request demo_env 2023 CITY_GEO ''acs/acs5'' [''B01001_001E'']]"
    unfolding A B by simp
  from T city_not_zcta_substring
  have D: "length (new_requests init_state after_batch_call) \<le> 2" by blast
  from T obtain frames where
    f1: "map Some frames
               = (if family_codes ''acs/acs5/profile'' [''DP05_0001E'', ''B01001_001E''] = [] then []
                  else [family_table demo_env 2023 (sent init_state)
                          (family_requests ''acs/acs5/profile'' init_state after_batch_call)])
                 @ (if family_codes ''acs/acs5'' [''DP05_0001E'', ''B01001_001E''] = [] then []
                    else [family_table demo_env 2023
                            (sent init_state @ family_requests ''acs/acs5/profile'' init_state after_batch_call)
                            (family_requests ''acs/acs5'' init_state after_batch_call)])"
    and f2: "if frames = [] then heap after_batch_call 0 = \<lparr>columns = [], rows = []\<rparr>
                else concat_frames frames = Inr (heap after_batch_call 0)"
    and f3: "length (rows (heap after_batch_call 0)) = sum_list (map (\<lambda>f. length (rows f)) frames)"
    by blast
  from f1 have g1: "map Some frames
          = [family_table demo_env 2023 []
               [bucket_request demo_env 2023 CITY_GEO ''acs/acs5/profile'' [''DP05_0001E'']],
             family_table demo_env 2023
               [bucket_request demo_env 2023 CITY_GEO ''acs/acs5/profile'' [''DP05_0001E'']]
               [bucket_request demo_env 2023 CITY_GEO ''acs/acs5'' [''B01001_001E'']]]"
    unfolding A B E(1) E(2) s0 by simp
  then have "frames \<noteq> []" by auto
  with f2 have g2: "concat_frames frames = Inr (heap after_batch_call 0)" by simp
  from g1 g2 f3 have F: "\<exists>frames. map Some frames
          = [family_table demo_env 2023 []
               [bucket_request demo_env 2023 CITY_GEO ''acs/acs5/profile'' [''DP05_0001E'']],
             family_table demo_env 2023
               [bucket_request demo_env 2023 CITY_GEO ''acs/acs5/profile'' [''DP05_0001E'']]
               [bucket_request demo_env 2023 CITY_GEO ''acs/acs5'' [''B01001_001E'']]]
          \<and> concat_frames frames = Inr (heap after_batch_call 0)
          \<and> length (rows (heap after_batch_call 0)) = sum_list (map (\<lambda>f. length (rows f)) frames)"
    by (intro exI [of _ frames] conjI)
  show ?thesis
    by (intro conjI batch_call_result city_not_zcta_substring A B C D F)
qed

text \<open>
  C8, as stated, fails: for a ZCTA geography and a service that wants the containing
  region, a call with one code of each family returns after four requests, two per family.
\<close>

theorem batch_sends_four_requests:
  "fst (call_api_vars zcta_env 2023 [''DP05_0001E'', ''B01001_001E''] (zcta_geo ''90802'') init_state)
     = Inr 0
   \<and> \<not> length (new_requests init_state after_zcta_batch_call) \<le> 2
   \<and> map url_dataset (new_requests init_state after_zcta_batch_call)
       = [''acs/acs5/profile'', ''acs/acs5/profile'', ''acs/acs5'', ''acs/acs5'']
   \<and> map (p_get \<circ> query) (new_requests init_state after_zcta_batch_call)
       = [''NAME,DP05_0001E'', ''NAME,DP05_0001E'', ''NAME,B01001_001E'', ''NAME,B01001_001E'']
   \<and> map (p_in \<circ> query) (new_requests init_state after_zcta_batch_call)
       = [None, Some ''state:06'', None, Some ''state:06'']"
  by code_simp


subsection \<open>The batched path and the single-call path\<close>

lemma isc_return: "ignores_single_caches (io_return x)"
  by (simp add: ignores_single_caches_def io_return_def)

lemma isc_raise: "ignores_single_caches (io_raise err)"
  by (simp add: ignores_single_caches_def io_raise_def)

lemma isc_lift: "ignores_single_caches (io_lift r)"
  by (simp add: ignores_single_caches_def io_lift_def)

lemma isc_http_get: "ignores_single_caches (http_get e rq)"
  by (simp add: ignores_single_caches_def http_get_def)

lemma isc_new_table: "ignores_single_caches (new_table t)"
  by (simp add: ignores_single_caches_def new_table_def)

lemma isc_bind:
  assumes "ignores_single_caches m" and "\<And>x. ignores_single_caches (f x)"
  shows "ignores_single_caches (io_bind m f)"
  unfolding ignores_single_caches_def
proof (intro allI)
  fix s c l
  from assms(1) have m: "m (s\<lparr>u_cache := c, lru := l\<rparr>)
              = (case m s of (r, s') \<Rightarrow> (r, s'\<lparr>u_cache := c, lru := l\<rparr>))"
    by (simp add: ignores_single_caches_def)
  obtain r s1 where ms: "m s = (r, s1)" by (cases "m s")
  show "io_bind m f (s\<lparr>u_cache := c, lru := l\<rparr>)
          = (case io_bind m f s of (r, s') \<Rightarrow> (r, s'\<lparr>u_cache := c, lru := l\<rparr>))"
  proof (cases r)
    case (Inl err)
    with m ms show ?thesis by (simp add: io_bind_def)
  next
    case (Inr x)
    from assms(2) [of x] have "f x (s1\<lparr>u_cache := c, lru := l\<rparr>)
              = (case f x s1 of (r, s') \<Rightarrow> (r, s'\<lparr>u_cache := c, lru := l\<rparr>))"
      by (simp add: ignores_single_caches_def)
    with Inr m ms show ?thesis by (simp add: io_bind_def)
  qed
qed

lemma isc_raise_for_status: "ignores_single_caches (raise_for_status r)"
  by (simp add: raise_for_status_def isc_raise isc_return)

lemma isc_fetch_bucket: "ignores_single_caches (fetch_bucket e year g dataset vars)"
  unfolding fetch_bucket_def Let_def
  by (intro isc_bind isc_http_get isc_raise_for_status isc_lift isc_return)
     (simp_all add: isc_http_get isc_return)

lemma isc_fetch_buckets: "ignores_single_caches (fetch_buckets e year g bs frames)"
proof (induction bs arbitrary: frames)
  case Nil
  show ?case by (simp add: isc_return)
next
  case (Cons b bs)
  obtain dataset vars where b: "b = (dataset, vars)" by (cases b)
  show ?case unfolding b
    by (simp add: Cons.IH isc_bind isc_fetch_bucket)
qed

lemma isc_call_api_vars: "ignores_single_caches (call_api_vars e year codes g)"
  unfolding call_api_vars_def
  by (intro isc_bind isc_fetch_buckets) (simp add: isc_bind isc_lift isc_new_table)

lemma isc_df_copy: "ignores_single_caches (df_copy a)"
  by (simp add: ignores_single_caches_def df_copy_def new_table_def)


lemma call_api_vars_ttl_hit:
  assumes "u_multi_cache s (multi_key year codes g) = Some (d, ts)"
    and "timedelta ttl_minutes = Inr ttl" and "now - ts < ttl"
  shows "call_api_vars_ttl e now year codes g ttl_minutes s =
           (Inr (next_addr s),
            s\<lparr>heap := (heap s)(next_addr s := heap s d), next_addr := Suc (next_addr s)\<rparr>)"
  using assms by (simp add: call_api_vars_ttl_def Let_def df_copy_def new_table_def)

lemma call_api_vars_ttl_overflow:
  assumes "u_multi_cache s (multi_key year codes g) = Some (d, ts)"
    and "timedelta ttl_minutes = Inl err"
  shows "call_api_vars_ttl e now year codes g ttl_minutes s = (Inl err, s)"
  using assms by (simp add: call_api_vars_ttl_def Let_def)

lemma call_api_vars_ttl_refetch:
  assumes "u_multi_cache s (multi_key year codes g) = None
           \<or> (\<exists>d ts ttl. u_multi_cache s (multi_key year codes g) = Some (d, ts)
                  \<and> timedelta ttl_minutes = Inr ttl \<and> \<not> now - ts < ttl)"
  shows "call_api_vars_ttl e now year codes g ttl_minutes s =
           (case call_api_vars e year codes g s of
              (Inl err, s') \<Rightarrow> (Inl err, s')
            | (Inr df, s') \<Rightarrow>
                (Inr df, s'\<lparr>heap := (heap s')(next_addr s' := heap s' df),
                            next_addr := Suc (next_addr s'),
                            u_multi_cache := (u_multi_cache s')(multi_key year codes g \<mapsto> (next_addr s', now))\<rparr>))"
  using assms
  by (auto simp: call_api_vars_ttl_def Let_def df_copy_def new_table_def io_bind_def io_return_def
      split: prod.splits sum.splits option.splits)

lemma call_api_vars_ttl_paths:
  obtains (hit) d ts ttl where "u_multi_cache s (multi_key year codes g) = Some (d, ts)"
      "timedelta ttl_minutes = Inr ttl" "now - ts < ttl"
  | (overflow) d ts err where "u_multi_cache s (multi_key year codes g) = Some (d, ts)"
      "timedelta ttl_minutes = Inl err"
  | (refetch) "u_multi_cache s (multi_key year codes g) = None
           \<or> (\<exists>d ts ttl. u_multi_cache s (multi_key year codes g) = Some (d, ts)
                  \<and> timedelta ttl_minutes = Inr ttl \<and> \<not> now - ts < ttl)"
proof (cases "u_multi_cache s (multi_key year codes g)")
  case None
  then show ?thesis by (intro refetch) simp
next
  case (Some v)
  obtain d ts where v: "v = (d, ts)" by (cases v)
  show ?thesis
  proof (cases "timedelta ttl_minutes")
    case (Inl err)
    with Some v show ?thesis by (intro overflow [of d ts err]) simp_all
  next
    case (Inr ttl)
    show ?thesis
    proof (cases "now - ts < ttl")
      case True
      with Some v Inr show ?thesis by (intro hit [of d ts ttl]) simp_all
    next
      case False
      with Some v Inr show ?thesis by (intro refetch) simp
    qed
  qed
qed

lemma isc_call_api_vars_ttl:
  "ignores_single_caches (call_api_vars_ttl e now year codes g ttl_minutes)"
  unfolding ignores_single_caches_def
proof (intro allI)
  fix s :: state and c l
  let ?s = "s\<lparr>u_cache := c, lru := l\<rparr>"
  have mc: "u_multi_cache ?s = u_multi_cache s" by simp
  from isc_call_api_vars [of e year codes g]
  have cv: "call_api_vars e year codes g ?s
        = (case call_api_vars e year codes g s of (r, s') \<Rightarrow> (r, s'\<lparr>u_cache := c, lru := l\<rparr>))"
    by (simp only: ignores_single_caches_def)
  show "call_api_vars_ttl e now year codes g ttl_minutes ?s
        = (case call_api_vars_ttl e now year codes g ttl_minutes s of
             (r, s') \<Rightarrow> (r, s'\<lparr>u_cache := c, lru := l\<rparr>))"
  proof (cases rule: call_api_vars_ttl_paths [of s year codes g ttl_minutes now])
    case (hit d ts ttl)
    from hit(1) have "u_multi_cache ?s (multi_key year codes g) = Some (d, ts)" by simp
    from call_api_vars_ttl_hit [OF this hit(2,3), of e] call_api_vars_ttl_hit [OF hit, of e]
    show ?thesis by simp
  next
    case (overflow d ts err)
    from overflow(1) have "u_multi_cache ?s (multi_key year codes g) = Some (d, ts)" by simp
    from call_api_vars_ttl_overflow [OF this overflow(2), of e now]
      call_api_vars_ttl_overflow [OF overflow, of e now]
    show ?thesis by simp
  next
    case refetch
    then have "u_multi_cache ?s (multi_key year codes g) = None
           \<or> (\<exists>d ts ttl. u_multi_cache ?s (multi_key year codes g) = Some (d, ts)
                  \<and> timedelta ttl_minutes = Inr ttl \<and> \<not> now - ts < ttl)" by simp
    from call_api_vars_ttl_refetch [OF this, of e] call_api_vars_ttl_refetch [OF refetch, of e] cv
    show ?thesis by (auto split: prod.splits sum.splits)
  qed
qed


lemma batch_ttl_call_result:
  "call_api_vars_ttl demo_env 1 2023 [''DP05_0001E''] CITY_GEO 60 after_first_call
     = (Inr 2, after_batch_ttl_call)"
proof -
  have "fst (call_api_vars_ttl demo_env 1 2023 [''DP05_0001E''] CITY_GEO 60 after_first_call) = Inr 2"
    by code_simp
  then show ?thesis
    unfolding after_batch_ttl_call_def by (metis prod.collapse)
qed

lemma batch_ttl_call_entries:
  "u_multi_cache after_first_call (multi_key 2023 [''DP05_0001E''] CITY_GEO) = None"
  "u_multi_cache after_batch_ttl_call (multi_key 2023 [''DP05_0001E''] CITY_GEO) = Some (3, 1)"
  "next_addr after_batch_ttl_call = 4"
  by code_simp+

text \<open>
  C2, as the code has it. The batched calls do not go through the single-call path.
  \<open>call_api_vars_ttl\<close> neither reads nor writes \<open>_cache\<close> and the \<open>lru_cache\<close>: it leaves
  them as they are and does the same whatever they hold. It keeps a TTL cache of its own,
  \<open>_multi_cache\<close>, under the key (year, sorted codes, for, in). A call that finds an entry
  younger than the TTL returns a copy of it, sends no request and leaves \<open>_multi_cache\<close>
  as it is; with a number of minutes that \<open>timedelta\<close> cannot hold it raises and changes
  nothing. A call that finds no entry, or one that is not younger than the TTL, sends at
  least one request when the code list is not empty; when it returns, it has stored under
  the key, with the time of the call, a copy of the table it returns, another object than
  the one returned; when it raises, \<open>_multi_cache\<close> is as before. After every call that
  returns, \<open>_multi_cache\<close> holds under the key a table equal to the result, and every later
  call with the same year, codes and geography, made while that entry is younger than the
  TTL, returns another table equal to it, sends no request and leaves the first result as
  it is.
\<close>

theorem batched_calls_have_their_own_cache:
  assumes "call_api_vars_ttl e now year codes g ttl_minutes s = (r, s')"
  shows "u_cache s' = u_cache s \<and> lru s' = lru s
     \<and> (\<forall>c l. call_api_vars_ttl e now year codes g ttl_minutes (s\<lparr>u_cache := c, lru := l\<rparr>)
                = (r, s'\<lparr>u_cache := c, lru := l\<rparr>))
     \<and> (\<forall>d ts ttl. u_multi_cache s (multi_key year codes g) = Some (d, ts)
                \<and> timedelta ttl_minutes = Inr ttl \<and> now - ts < ttl \<longrightarrow>
           r = Inr (next_addr s) \<and> heap s' (next_addr s) = heap s d \<and> sent s' = sent s
           \<and> u_multi_cache s' = u_multi_cache s)
     \<and> (\<forall>d ts err. u_multi_cache s (multi_key year codes g) = Some (d, ts)
                \<and> timedelta ttl_minutes = Inl err \<longrightarrow> r = Inl err \<and> s' = s)
     \<and> (u_multi_cache s (multi_key year codes g) = None
          \<or> (\<exists>d ts ttl. u_multi_cache s (multi_key year codes g) = Some (d, ts)
                 \<and> timedelta ttl_minutes = Inr ttl \<and> \<not> now - ts < ttl) \<longrightarrow>
           (codes \<noteq> [] \<longrightarrow> length (sent s) < length (sent s'))
           \<and> (\<forall>a. r = Inr a \<longrightarrow>
                 (\<exists>c. c \<noteq> a \<and> u_multi_cache s' (multi_key year codes g) = Some (c, now)
                      \<and> heap s' c = heap s' a))
           \<and> (\<forall>err. r = Inl err \<longrightarrow> u_multi_cache s' = u_multi_cache s))
     \<and> (\<forall>a. r = Inr a \<longrightarrow>
          (\<exists>d ts. u_multi_cache s' (multi_key year codes g) = Some (d, ts)
             \<and> heap s' d = heap s' a
             \<and> (\<forall>now2 ttl2 ttl. timedelta ttl2 = Inr ttl \<and> now2 - ts < ttl \<longrightarrow>
                  (\<exists>a2 s2. call_api_vars_ttl e now2 year codes g ttl2 s' = (Inr a2, s2)
                      \<and> a2 \<noteq> a \<and> heap s2 a2 = heap s' a \<and> heap s2 a = heap s' a
                      \<and> sent s2 = sent s'))))"
proof -
  let ?k = "multi_key year codes g"
  let ?refetch = "u_multi_cache s ?k = None
          \<or> (\<exists>d ts ttl. u_multi_cache s ?k = Some (d, ts)
                 \<and> timedelta ttl_minutes = Inr ttl \<and> \<not> now - ts < ttl)"
  let ?R1 = "\<forall>d ts ttl. u_multi_cache s ?k = Some (d, ts)
                \<and> timedelta ttl_minutes = Inr ttl \<and> now - ts < ttl \<longrightarrow>
           r = Inr (next_addr s) \<and> heap s' (next_addr s) = heap s d \<and> sent s' = sent s
           \<and> u_multi_cache s' = u_multi_cache s"
  let ?R2 = "\<forall>d ts err. u_multi_cache s ?k = Some (d, ts)
                \<and> timedelta ttl_minutes = Inl err \<longrightarrow> r = Inl err \<and> s' = s"
  let ?R3 = "?refetch \<longrightarrow>
           (codes \<noteq> [] \<longrightarrow> length (sent s) < length (sent s'))
           \<and> (\<forall>a. r = Inr a \<longrightarrow>
                 (\<exists>c. c \<noteq> a \<and> u_multi_cache s' ?k = Some (c, now) \<and> heap s' c = heap s' a))
           \<and> (\<forall>err. r = Inl err \<longrightarrow> u_multi_cache s' = u_multi_cache s)"
  let ?served = "\<lambda>a. \<exists>d ts. u_multi_cache s' ?k = Some (d, ts) \<and> heap s' d = heap s' a
             \<and> (\<forall>now2 ttl2 ttl. timedelta ttl2 = Inr ttl \<and> now2 - ts < ttl \<longrightarrow>
                  (\<exists>a2 s2. call_api_vars_ttl e now2 year codes g ttl2 s' = (Inr a2, s2)
                      \<and> a2 \<noteq> a \<and> heap s2 a2 = heap s' a \<and> heap s2 a = heap s' a
                      \<and> sent s2 = sent s'))"
  let ?R4 = "\<forall>a. r = Inr a \<longrightarrow> ?served a"
  have isc: "call_api_vars_ttl e now year codes g ttl_minutes (s\<lparr>u_cache := c, lru := l\<rparr>)
                = (r, s'\<lparr>u_cache := c, lru := l\<rparr>)" for c l
    using isc_call_api_vars_ttl [of e now year codes g ttl_minutes] assms
    by (simp add: ignores_single_caches_def)
  from isc [where c = "u_cache s" and l = "lru s"] assms
  have "s' = s'\<lparr>u_cache := u_cache s, lru := lru s\<rparr>" by simp
  then have "u_cache s' = u_cache (s'\<lparr>u_cache := u_cache s, lru := lru s\<rparr>)"
    and "lru s' = lru (s'\<lparr>u_cache := u_cache s, lru := lru s\<rparr>)" by simp_all
  then have A1: "u_cache s' = u_cache s" and A2: "lru s' = lru s" by simp_all
  have I: "\<forall>c l. call_api_vars_ttl e now year codes g ttl_minutes (s\<lparr>u_cache := c, lru := l\<rparr>)
                = (r, s'\<lparr>u_cache := c, lru := l\<rparr>)"
    by (intro allI) (rule isc)
  have served: "?served a"
    if e1: "u_multi_cache s' ?k = Some (d, ts)" and h1: "heap s' d = heap s' a"
      and lt: "a < next_addr s'" for a d ts
  proof -
    have W: "\<forall>now2 ttl2 ttl. timedelta ttl2 = Inr ttl \<and> now2 - ts < ttl \<longrightarrow>
                  (\<exists>a2 s2. call_api_vars_ttl e now2 year codes g ttl2 s' = (Inr a2, s2)
                      \<and> a2 \<noteq> a \<and> heap s2 a2 = heap s' a \<and> heap s2 a = heap s' a
                      \<and> sent s2 = sent s')"
    proof (intro allI impI)
      fix now2 ttl2 ttl
      assume "timedelta ttl2 = Inr ttl \<and> now2 - ts < ttl"
      then have t: "timedelta ttl2 = Inr ttl" and f: "now2 - ts < ttl" by simp_all
      from call_api_vars_ttl_hit [OF e1 t f, of e] h1 lt
      show "\<exists>a2 s2. call_api_vars_ttl e now2 year codes g ttl2 s' = (Inr a2, s2)
                      \<and> a2 \<noteq> a \<and> heap s2 a2 = heap s' a \<and> heap s2 a = heap s' a
                      \<and> sent s2 = sent s'"
        by auto
    qed
    show ?thesis
      by (rule exI [of _ d], rule exI [of _ ts], intro conjI e1 h1 W)
  qed
  have rest: "?R1 \<and> ?R2 \<and> ?R3 \<and> ?R4"
  proof (cases rule: call_api_vars_ttl_paths [of s year codes g ttl_minutes now])
    case (hit d ts ttl)
    from assms call_api_vars_ttl_hit [OF hit, of e]
    have r: "r = Inr (next_addr s)"
      and s': "s' = s\<lparr>heap := (heap s)(next_addr s := heap s d), next_addr := Suc (next_addr s)\<rparr>"
      by simp_all
    have e1: "u_multi_cache s' ?k = Some (d, ts)" using s' hit(1) by simp
    have h1: "heap s' d = heap s' (next_addr s)" using s' by simp
    have lt: "next_addr s < next_addr s'" using s' by simp
    have Q1: ?R1 using r s' hit(1) by simp
    have Q2: ?R2 using hit(2) by simp
    have Q3: ?R3 using hit by simp
    have Q4: ?R4
    proof (intro allI impI)
      fix a assume "r = Inr a"
      with r have a: "a = next_addr s" by simp
      show "?served a" unfolding a by (rule served [OF e1 h1 lt])
    qed
    show ?thesis by (intro conjI Q1 Q2 Q3 Q4)
  next
    case (overflow d ts err)
    from assms call_api_vars_ttl_overflow [OF overflow, of e now]
    have r: "r = Inl err" "s' = s" by simp_all
    have Q1: ?R1 using overflow(2) by simp
    have Q2: ?R2 using overflow(2) r by simp
    have Q3: ?R3 using overflow by simp
    have Q4: ?R4 using r(1) by simp
    show ?thesis by (intro conjI Q1 Q2 Q3 Q4)
  next
    case refetch
    have Q1: ?R1 using refetch by auto
    have Q2: ?R2 using refetch by auto
    obtain r1 s1 where c: "call_api_vars e year codes g s = (r1, s1)"
      by (cases "call_api_vars e year codes g s")
    note X = call_api_vars_exact [OF c]
    from X have mc: "u_multi_cache s1 = u_multi_cache s" by simp
    have one: "length (sent s) < length (sent s1)" if "codes \<noteq> []"
      using call_api_vars_sends_one [OF c that] .
    show ?thesis
    proof (cases r1)
      case (Inl err)
      with assms call_api_vars_ttl_refetch [OF refetch, of e] c
      have r: "r = Inl err" "s' = s1" by simp_all
      have Q3: ?R3 using one r mc by simp
      have Q4: ?R4 using r(1) by simp
      show ?thesis by (intro conjI Q1 Q2 Q3 Q4)
    next
      case (Inr a)
      with assms call_api_vars_ttl_refetch [OF refetch, of e] c
      have r: "r = Inr a"
        and s': "s' = s1\<lparr>heap := (heap s1)(next_addr s1 := heap s1 a),
                            next_addr := Suc (next_addr s1),
                            u_multi_cache := (u_multi_cache s1)(?k \<mapsto> (next_addr s1, now))\<rparr>"
        by simp_all
      from X Inr have na: "next_addr s1 = Suc a" by simp
      have e1: "u_multi_cache s' ?k = Some (Suc a, now)" using s' na by simp
      have h1: "heap s' (Suc a) = heap s' a" using s' na by simp
      have lt: "a < next_addr s'" using s' na by simp
      have sn: "sent s' = sent s1" using s' by simp
      have P3: "\<exists>c. c \<noteq> a \<and> u_multi_cache s' ?k = Some (c, now) \<and> heap s' c = heap s' a"
        using e1 h1 by (intro exI [of _ "Suc a"]) simp
      have Q3: ?R3
      proof (intro impI conjI allI)
        assume "codes \<noteq> []"
        from one [OF this] sn show "length (sent s) < length (sent s')" by simp
      next
        fix b assume "r = Inr b"
        with r have b: "b = a" by simp
        show "\<exists>c. c \<noteq> b \<and> u_multi_cache s' ?k = Some (c, now) \<and> heap s' c = heap s' b"
          unfolding b by (rule P3)
      next
        fix err assume "r = Inl err"
        with r show "u_multi_cache s' = u_multi_cache s" by simp
      qed
      have Q4: ?R4
      proof (intro allI impI)
        fix b assume "r = Inr b"
        with r have b: "b = a" by simp
        show "?served b" unfolding b by (rule served [OF e1 h1 lt])
      qed
      show ?thesis by (intro conjI Q1 Q2 Q3 Q4)
    qed
  qed
  show ?thesis by (rule conjI [OF A1 conjI [OF A2 conjI [OF I rest]]])
qed


theorem batched_calls_have_their_own_cache_witness:
  "call_api_vars_ttl demo_env 1 2023 [''DP05_0001E''] CITY_GEO 60 after_first_call
     = (Inr 2, after_batch_ttl_call)
   \<and> u_multi_cache after_first_call (multi_key 2023 [''DP05_0001E''] CITY_GEO) = None
   \<and> [''DP05_0001E''] \<noteq> ([] :: string list)
   \<and> length (sent after_first_call) < length (sent after_batch_ttl_call)
   \<and> u_cache after_batch_ttl_call = u_cache after_first_call
   \<and> lru after_batch_ttl_call = lru after_first_call
   \<and> u_multi_cache after_batch_ttl_call (multi_key 2023 [''DP05_0001E''] CITY_GEO) = Some (3, 1)
   \<and> heap after_batch_ttl_call 3 = heap after_batch_ttl_call 2
   \<and> timedelta 60 = Inr (timedelta_minutes 60)
   \<and> (2 :: int) - 1 < timedelta_minutes 60
   \<and> (\<exists>a2 s2. call_api_vars_ttl demo_env 2 2023 [''DP05_0001E''] CITY_GEO 60 after_batch_ttl_call
                = (Inr a2, s2)
             \<and> a2 \<noteq> 2 \<and> heap s2 a2 = heap after_batch_ttl_call 2
             \<and> heap s2 2 = heap after_batch_ttl_call 2
             \<and> sent s2 = sent after_batch_ttl_call)"
proof -
  let ?k = "multi_key 2023 [''DP05_0001E''] CITY_GEO"
  note T = batched_calls_have_their_own_cache [OF batch_ttl_call_result]
  have ne: "[''DP05_0001E''] \<noteq> ([] :: string list)" by simp
  have fresh: "(2 :: int) - 1 < timedelta_minutes 60" by (simp add: timedelta_minutes_def)
  from T have A: "u_cache after_batch_ttl_call = u_cache after_first_call"
    and A': "lru after_batch_ttl_call = lru after_first_call" by blast+
  from T batch_ttl_call_entries(1) ne
  have B: "length (sent after_first_call) < length (sent after_batch_ttl_call)" by blast
  note R4 = T [THEN conjunct2, THEN conjunct2, THEN conjunct2, THEN conjunct2, THEN conjunct2,
      THEN conjunct2, THEN spec, THEN mp, OF refl]
  from R4 obtain d ts where
    e: "u_multi_cache after_batch_ttl_call ?k = Some (d, ts)"
    and h: "heap after_batch_ttl_call d = heap after_batch_ttl_call 2"
    and w: "\<forall>now2 ttl2 ttl. timedelta ttl2 = Inr ttl \<and> now2 - ts < ttl \<longrightarrow>
              (\<exists>a2 s2. call_api_vars_ttl demo_env now2 2023 [''DP05_0001E''] CITY_GEO ttl2
                           after_batch_ttl_call = (Inr a2, s2)
                 \<and> a2 \<noteq> 2 \<and> heap s2 a2 = heap after_batch_ttl_call 2
                 \<and> heap s2 2 = heap after_batch_ttl_call 2
                 \<and> sent s2 = sent after_batch_ttl_call)"
    by (elim exE conjE)
  from e batch_ttl_call_entries(2) have d: "d = 3" and ts: "ts = 1" by simp_all
  from h d have C: "heap after_batch_ttl_call 3 = heap after_batch_ttl_call 2" by simp
  from fresh ts have fresh': "2 - ts < timedelta_minutes 60" by simp
  note D = w [THEN spec, THEN spec, THEN spec, THEN mp, OF conjI [OF timedelta_60 fresh']]
  show ?thesis
    by (intro conjI batch_ttl_call_result batch_ttl_call_entries(1) batch_ttl_call_entries(2)
          ne B A A' C timedelta_60 fresh D)
qed

text \<open>
  C2, as stated, fails. A request that the single-call path has cached one microsecond ago
  is fetched again by the batched call for the same year, code and geography. And for a
  ZCTA geography, where the resolver turns \<open>DP05_0001E\<close> into \<open>B01003_001E\<close> of the detailed
  dataset, the batched call asks the profile dataset for \<open>DP05_0001E\<close>.
\<close>

theorem batched_call_refetches_cached_request:
  "u_cache after_first_call (request_key 2023 ''DP05_0001E'' CITY_GEO) = Some (1, 0)
   \<and> timedelta 60 = Inr (timedelta_minutes 60)
   \<and> (1 :: int) - 0 < timedelta_minutes 60
   \<and> length (sent after_batch_ttl_call) = Suc (length (sent after_first_call))
   \<and> request_key 2023 ''DP05_0001E'' (zcta_geo ''90802'')
      = (2023, ''B01003_001E'', ''acs/acs5'', Some ''zip code tabulation area:90802'', None)
   \<and> map url_dataset (new_requests init_state after_zcta_batch_ttl_call)
      = [''acs/acs5/profile'', ''acs/acs5/profile'']
   \<and> map (p_get \<circ> query) (new_requests init_state after_zcta_batch_ttl_call)
      = [''NAME,DP05_0001E'', ''NAME,DP05_0001E'']"
  by code_simp


subsection \<open>Multi-year fan-out\<close>

lemma collect_Inr:
  "collect h res done frames = Inr out \<Longrightarrow>
     out = frames @ filter (\<lambda>a. \<not> df_empty (h a)) (fetched res done)
     \<and> (\<forall>i \<in> set done. \<forall>err. res i \<noteq> Some (Inl err))"
proof (induction "done" arbitrary: frames)
  case Nil
  then show ?case by (simp add: fetched_def List.map_filter_simps)
next
  case (Cons i rest)
  show ?case
  proof (cases "res i")
    case None
    with Cons.prems have "collect h res rest frames = Inr out" by simp
    from Cons.IH [OF this] None show ?thesis
      by (simp add: fetched_def List.map_filter_simps)
  next
    case (Some r)
    show ?thesis
    proof (cases r)
      case (Inl err)
      with Some Cons.prems show ?thesis by simp
    next
      case (Inr a)
      show ?thesis
      proof (cases "df_empty (h a)")
        case True
        with Some Inr Cons.prems have "collect h res rest frames = Inr out" by simp
        from Cons.IH [OF this] Some Inr True show ?thesis
          by (simp add: fetched_def List.map_filter_simps)
      next
        case False
        with Some Inr Cons.prems have "collect h res rest (frames @ [a]) = Inr out" by simp
        from Cons.IH [OF this] Some Inr False show ?thesis
          by (simp add: fetched_def List.map_filter_simps)
      qed
    qed
  qed
qed

lemma collect_no_error:
  "\<forall>i \<in> set done. \<forall>err. res i \<noteq> Some (Inl err) \<Longrightarrow>
   collect h res done frames = Inr (frames @ filter (\<lambda>a. \<not> df_empty (h a)) (fetched res done))"
proof (induction "done" arbitrary: frames)
  case Nil
  then show ?case by (simp add: fetched_def List.map_filter_simps)
next
  case (Cons i rest)
  then have ih: "\<And>fs. collect h res rest fs
      = Inr (fs @ filter (\<lambda>a. \<not> df_empty (h a)) (fetched res rest))" by simp
  from Cons.prems have ni: "\<forall>err. res i \<noteq> Some (Inl err)" by simp
  show ?case
  proof (cases "res i")
    case None
    with ih show ?thesis by (simp add: fetched_def List.map_filter_simps)
  next
    case (Some r)
    with ni obtain a where "r = Inr a" by (cases r) auto
    with Some ih show ?thesis by (simp add: fetched_def List.map_filter_simps)
  qed
qed

lemma mset_fetched: "mset d' = mset d \<Longrightarrow> mset (fetched res d') = mset (fetched res d)"
  by (simp add: fetched_def List.map_filter_def)

lemma all_keys_Inr: "all_keys xs = Inr ks \<Longrightarrow> xs = map Inr ks"
proof (induction xs arbitrary: ks)
  case Nil
  then show ?case by simp
next
  case (Cons x xs)
  then show ?case by (cases x) (auto split: sum.splits)
qed

lemma all_keys_map_Inr: "all_keys (map (\<lambda>x. Inr (k x)) xs) = Inr (map k xs)"
  by (induction xs) simp_all

lemma insort_key_decorated:
  "insort_key fst (k a, a) (map (\<lambda>x. (k x, x)) ys) = map (\<lambda>x. (k x, x)) (insort_key k a ys)"
  by (induction ys) simp_all

lemma sort_key_decorated:
  "sort_key fst (map (\<lambda>x. (k x, x)) xs) = map (\<lambda>x. (k x, x)) (sort_key k xs)"
  by (induction xs) (simp_all add: insort_key_decorated)

lemma year_key_year_of: "year_key e (h a) = Inr y \<Longrightarrow> year_of e h a = y"
  by (simp add: year_of_def)

lemma sort_frames_Inr:
  assumes "sort_frames e h fs = Inr out"
  shows "out = sort_key (year_of e h) fs
     \<and> (\<forall>a \<in> set fs. year_key e (h a) = Inr (year_of e h a))"
proof -
  from assms obtain ks where ks: "all_keys (map (\<lambda>a. year_key e (h a)) fs) = Inr ks"
    and out: "out = map snd (sort_key fst (zip ks fs))"
    by (auto simp: sort_frames_def split: sum.splits)
  from all_keys_Inr [OF ks] have m: "map (\<lambda>a. year_key e (h a)) fs = map Inr ks" .
  then have len: "length ks = length fs" by (metis length_map)
  have keys: "\<forall>a \<in> set fs. year_key e (h a) = Inr (year_of e h a)"
  proof
    fix a assume "a \<in> set fs"
    then have "year_key e (h a) \<in> set (map Inr ks)" using m by (metis image_eqI set_map)
    then obtain y where "year_key e (h a) = Inr y" by auto
    then show "year_key e (h a) = Inr (year_of e h a)" by (simp add: year_of_def)
  qed
  then have "map (\<lambda>a. year_key e (h a)) fs = map Inr (map (year_of e h) fs)"
    by (simp add: comp_def)
  with m have eq: "map Inr ks = (map Inr (map (year_of e h) fs) :: (error + int) list)"
    by (simp only:)
  have "inj (Inr :: int \<Rightarrow> error + int)" by (simp add: inj_def)
  from map_injective [OF eq this] have "ks = map (year_of e h) fs" .
  then have "zip ks fs = map (\<lambda>x. (year_of e h x, x)) fs" by (simp add: zip_map1 zip_same_conv_map)
  with out have "out = sort_key (year_of e h) fs"
    by (simp add: sort_key_decorated comp_def)
  with keys show ?thesis by simp
qed

lemma sort_frames_keys_ok:
  assumes "\<forall>a \<in> set fs. \<exists>y. year_key e (h a) = Inr y"
  shows "sort_frames e h fs = Inr (sort_key (year_of e h) fs)"
proof -
  from assms have k: "\<forall>a \<in> set fs. year_key e (h a) = Inr (year_of e h a)"
    by (auto simp: year_of_def)
  then have m: "map (\<lambda>a. year_key e (h a)) fs = map (\<lambda>x. Inr (year_of e h x)) fs" by simp
  have "zip (map (year_of e h) fs) fs = map (\<lambda>x. (year_of e h x, x)) fs"
    by (simp add: zip_map1 zip_same_conv_map)
  then show ?thesis
    by (simp add: sort_frames_def m all_keys_map_Inr sort_key_decorated comp_def)
qed

lemma call_api_ttl_many_cases:
  assumes "call_api_ttl_many e sc years code g ttl_minutes s = (Inr frames, s')"
  obtains res fs where "years \<noteq> []"
    "run_all e (start_order sc) years code g Map.empty s = (res, s')"
    "collect (heap s') res (done_order sc) [] = Inr fs"
    "sort_frames e (heap s') fs = Inr frames"
  using assms
  by (auto simp: call_api_ttl_many_def split: if_splits prod.splits sum.splits)

lemma call_api_ttl_many_eq:
  assumes "years \<noteq> []"
    and "run_all e (start_order sc) years code g Map.empty s = (res, s')"
    and "collect (heap s') res (done_order sc) [] = Inr fs"
  shows "call_api_ttl_many e sc years code g ttl_minutes s = (sort_frames e (heap s') fs, s')"
  using assms by (cases years) (simp_all add: call_api_ttl_many_def)

lemma length_fetched:
  "\<forall>i \<in> set d. \<exists>a. res i = Some (Inr a) \<Longrightarrow> length (fetched res d) = length d"
  by (induction d) (auto simp: fetched_def List.map_filter_simps)


lemma call_api_ttl_many_no_years:
  "call_api_ttl_many e sc [] code g ttl_minutes s = (Inl ValueError, s)"
  by (simp add: call_api_ttl_many_def)

lemma fan_out_eval:
  "(case call_api_ttl_many demo_env demo_sched demo_years ''B01003_001E'' CITY_GEO 60 init_state of
      (r, s) \<Rightarrow> r = Inr [0, 4, 2]
                \<and> map (year_of demo_env (heap s)) [0, 4, 2] = [2021, 2022, 2023])"
  by code_simp

lemma fan_out_result:
  "call_api_ttl_many demo_env demo_sched demo_years ''B01003_001E'' CITY_GEO 60 init_state
     = (Inr [0, 4, 2], after_fan_out)"
  using fan_out_eval unfolding after_fan_out_def by (auto split: prod.splits)

lemma fan_out_years:
  "map (year_of demo_env (heap after_fan_out)) [0, 4, 2] = [2021, 2022, 2023]"
  using fan_out_eval unfolding after_fan_out_def by (auto split: prod.splits)

lemma demo_sched_perm:
  "mset (done_order demo_sched') = mset (done_order demo_sched)"
  "demo_sched\<lparr>done_order := done_order demo_sched'\<rparr> = demo_sched'"
  by (simp_all add: demo_sched_def demo_sched'_def)

lemma demo_run2_eval:
  "fst demo_run2 0 = Some (Inr 2)" "fst demo_run2 1 = Some (Inr 0)"
  "df_empty (heap (snd demo_run2) 0)" "\<not> df_empty (heap (snd demo_run2) 2)"
  "year_key demo_env (heap (snd demo_run2) 2) = Inr 2021"
  by code_simp+

lemma demo_run2_result:
  "run_all demo_env (start_order demo_sched2) [2021, 2020] ''B01003_001E'' CITY_GEO Map.empty init_state
     = (fst demo_run2, snd demo_run2)"
  by (simp add: demo_run2_def)

lemma demo_sched2_valid: "valid_sched [2021, 2020] demo_sched2"
  by code_simp


text \<open>
  C7. Whenever \<open>call_api_ttl_many\<close> returns a list of tables, the list is sorted ascending
  by the embedded year, the integer in the Year column of each table's first row. The
  order in which the fetches complete does not matter: with the same fetches and any other
  order of completion the call returns too, in the same final state, the same tables with
  the same sequence of years, and the very same list when the years of the tables differ
  from each other. For the years 2021, 2023, 2022 the tables come out as 2021, 2022, 2023
  under two different orders of completion.
\<close>

theorem call_api_ttl_many_sorted_by_year:
  assumes "call_api_ttl_many e sc years code g ttl_minutes s = (Inr frames, s')"
  shows "sorted (map (year_of e (heap s')) frames)
     \<and> (\<forall>a \<in> set frames. year_key e (heap s' a) = Inr (year_of e (heap s') a))
     \<and> (\<forall>d'. mset d' = mset (done_order sc) \<longrightarrow>
          (\<exists>frames'. call_api_ttl_many e (sc\<lparr>done_order := d'\<rparr>) years code g ttl_minutes s
                        = (Inr frames', s')
              \<and> mset frames' = mset frames
              \<and> map (year_of e (heap s')) frames' = map (year_of e (heap s')) frames
              \<and> (distinct (map (year_of e (heap s')) frames) \<longrightarrow> frames' = frames)))"
  using assms
proof (cases rule: call_api_ttl_many_cases)
  case (1 res fs)
  let ?k = "year_of e (heap s')"
  let ?ne = "\<lambda>a. \<not> df_empty (heap s' a)"
  note c = collect_Inr [OF 1(3)]
  note sf = sort_frames_Inr [OF 1(4)]
  from sf have fr: "frames = sort_key ?k fs" by simp
  have A: "sorted (map ?k frames)" by (simp add: fr sorted_sort_key)
  from sf have B: "\<forall>a \<in> set frames. year_key e (heap s' a) = Inr (?k a)" by (simp add: fr)
  have C: "\<exists>frames'. call_api_ttl_many e (sc\<lparr>done_order := d'\<rparr>) years code g ttl_minutes s
                        = (Inr frames', s')
              \<and> mset frames' = mset frames
              \<and> map ?k frames' = map ?k frames
              \<and> (distinct (map ?k frames) \<longrightarrow> frames' = frames)"
    if d': "mset d' = mset (done_order sc)" for d'
  proof -
    let ?fs' = "filter ?ne (fetched res d')"
    from d' have "set d' = set (done_order sc)" by (rule mset_eq_setD)
    with c have "\<forall>i \<in> set d'. \<forall>err. res i \<noteq> Some (Inl err)" by simp
    from collect_no_error [OF this, of "heap s'" "[]"]
    have col: "collect (heap s') res (done_order (sc\<lparr>done_order := d'\<rparr>)) [] = Inr ?fs'" by simp
    from c have fs: "fs = filter ?ne (fetched res (done_order sc))" by simp
    have ms: "mset ?fs' = mset fs"
      unfolding fs by (simp add: mset_fetched [OF d'])
    then have st: "set ?fs' = set fs" by (rule mset_eq_setD)
    with sf have "\<forall>a \<in> set ?fs'. \<exists>y. year_key e (heap s' a) = Inr y" by blast
    from sort_frames_keys_ok [OF this]
    have srt: "sort_frames e (heap s') ?fs' = Inr (sort_key ?k ?fs')" .
    from 1(2) have run: "run_all e (start_order (sc\<lparr>done_order := d'\<rparr>)) years code g Map.empty s = (res, s')"
      by simp
    from call_api_ttl_many_eq [OF 1(1) run col] srt
    have res': "call_api_ttl_many e (sc\<lparr>done_order := d'\<rparr>) years code g ttl_minutes s
                  = (Inr (sort_key ?k ?fs'), s')" by simp
    have m1: "mset (sort_key ?k ?fs') = mset frames" by (simp only: fr mset_sort ms)
    have "sort (map ?k fs) = map ?k frames"
      by (rule properties_for_sort) (simp_all add: fr sorted_sort_key)
    moreover have "sort (map ?k fs) = map ?k (sort_key ?k ?fs')"
    proof (rule properties_for_sort)
      show "mset (map ?k (sort_key ?k ?fs')) = mset (map ?k fs)"
        by (simp only: mset_map mset_sort ms)
      show "sorted (map ?k (sort_key ?k ?fs'))" by (rule sorted_sort_key)
    qed
    ultimately have m2: "map ?k (sort_key ?k ?fs') = map ?k frames" by simp
    have m3: "sort_key ?k ?fs' = frames" if dist: "distinct (map ?k frames)"
    proof (rule sort_key_inj_key_eq)
      show "mset ?fs' = mset frames" by (simp only: fr mset_sort ms)
      from dist have "inj_on ?k (set frames)" by (simp add: distinct_map)
      moreover have "set frames = set ?fs'" by (simp only: fr set_sort st)
      ultimately show "inj_on ?k (set ?fs')" by (simp only:)
      show "sorted (map ?k frames)" by (rule A)
    qed
    from res' m1 m2 m3 show ?thesis by blast
  qed
  from A B C show ?thesis by blast
qed

theorem call_api_ttl_many_sorted_by_year_witness:
  "call_api_ttl_many demo_env demo_sched demo_years ''B01003_001E'' CITY_GEO 60 init_state
     = (Inr [0, 4, 2], after_fan_out)
   \<and> mset (done_order demo_sched') = mset (done_order demo_sched)
   \<and> map (year_of demo_env (heap after_fan_out)) [0, 4, 2] = [2021, 2022, 2023]
   \<and> sorted (map (year_of demo_env (heap after_fan_out)) [0, 4, 2])
   \<and> year_key demo_env (heap after_fan_out 4) = Inr 2022
   \<and> call_api_ttl_many demo_env demo_sched' demo_years ''B01003_001E'' CITY_GEO 60 init_state
     = (Inr [0, 4, 2], after_fan_out)"
proof -
  note T = call_api_ttl_many_sorted_by_year [OF fan_out_result]
  from T have A: "sorted (map (year_of demo_env (heap after_fan_out)) [0, 4, 2])" by blast
  from T have "\<forall>a \<in> set [0, 4, 2 :: nat].
      year_key demo_env (heap after_fan_out a) = Inr (year_of demo_env (heap after_fan_out) a)"
    by blast
  with fan_out_years have B: "year_key demo_env (heap after_fan_out 4) = Inr 2022" by simp
  have dist: "distinct (map (year_of demo_env (heap after_fan_out)) [0, 4, 2])"
    by (simp only: fan_out_years) simp
  from T demo_sched_perm(1) obtain frames' where
    "call_api_ttl_many demo_env (demo_sched\<lparr>done_order := done_order demo_sched'\<rparr>) demo_years
        ''B01003_001E'' CITY_GEO 60 init_state = (Inr frames', after_fan_out)"
    and "distinct (map (year_of demo_env (heap after_fan_out)) [0, 4, 2]) \<longrightarrow> frames' = [0, 4, 2]"
    by blast
  with dist have C: "call_api_ttl_many demo_env demo_sched' demo_years ''B01003_001E'' CITY_GEO 60 init_state
     = (Inr [0, 4, 2], after_fan_out)"
    by (simp add: demo_sched_perm(2))
  from fan_out_result demo_sched_perm(1) fan_out_years A B C show ?thesis by blast
qed


text \<open>
  C10. Let every per-year fetch of \<open>call_api_ttl_many\<close> return a table, for a list of years
  that is not empty, and let the tables that have rows carry an integer year. Then the
  call returns, without an error, exactly the fetched tables that are not empty: a year
  whose table is empty adds no element, so the returned list is shorter than the list of
  years by the number of empty tables.
\<close>

theorem empty_years_are_omitted:
  assumes run: "run_all e (start_order sc) years code g Map.empty s = (res, s')"
    and ok: "\<forall>i \<in> set (done_order sc). \<exists>a. res i = Some (Inr a)"
    and keys: "\<forall>a \<in> set (fetched res (done_order sc)).
                 \<not> df_empty (heap s' a) \<longrightarrow> (\<exists>y. year_key e (heap s' a) = Inr y)"
    and ne: "years \<noteq> []"
  shows "\<exists>frames. call_api_ttl_many e sc years code g ttl_minutes s = (Inr frames, s')
           \<and> mset frames = mset (filter (\<lambda>a. \<not> df_empty (heap s' a)) (fetched res (done_order sc)))
           \<and> (\<forall>a \<in> set frames. \<not> df_empty (heap s' a))
           \<and> length frames
               + length (filter (\<lambda>a. df_empty (heap s' a)) (fetched res (done_order sc)))
             = length (done_order sc)
           \<and> (valid_sched years sc \<longrightarrow> length (done_order sc) = length years)"
proof -
  let ?ne = "\<lambda>a. \<not> df_empty (heap s' a)"
  let ?all = "fetched res (done_order sc)"
  let ?fs = "filter ?ne ?all"
  let ?k = "year_of e (heap s')"
  from ok have "\<forall>i \<in> set (done_order sc). \<forall>err. res i \<noteq> Some (Inl err)" by auto
  from collect_no_error [OF this, of "heap s'" "[]"]
  have col: "collect (heap s') res (done_order sc) [] = Inr ?fs" by simp
  from keys have "\<forall>a \<in> set ?fs. \<exists>y. year_key e (heap s' a) = Inr y" by simp
  from sort_frames_keys_ok [OF this]
  have srt: "sort_frames e (heap s') ?fs = Inr (sort_key ?k ?fs)" .
  from call_api_ttl_many_eq [OF ne run col] srt
  have A: "call_api_ttl_many e sc years code g ttl_minutes s = (Inr (sort_key ?k ?fs), s')" by simp
  have B: "mset (sort_key ?k ?fs) = mset ?fs" by simp
  have C: "\<forall>a \<in> set (sort_key ?k ?fs). ?ne a" by simp
  have "length ?fs + length (filter (\<lambda>a. df_empty (heap s' a)) ?all) = length ?all"
    using sum_length_filter_compl [of "\<lambda>a. df_empty (heap s' a)" ?all] by simp
  then have D: "length (sort_key ?k ?fs) + length (filter (\<lambda>a. df_empty (heap s' a)) ?all)
                = length (done_order sc)"
    by (simp add: length_fetched [OF ok])
  have E: "valid_sched years sc \<longrightarrow> length (done_order sc) = length years"
  proof
    assume "valid_sched years sc"
    then have "sort (done_order sc) = [0..<length years]" by (simp add: valid_sched_def)
    then have "length (sort (done_order sc)) = length [0..<length years]" by simp
    then show "length (done_order sc) = length years" by simp
  qed
  from A B C D E show ?thesis by blast
qed
theorem empty_years_are_omitted_witness:
  "run_all demo_env (start_order demo_sched2) [2021, 2020] ''B01003_001E'' CITY_GEO Map.empty init_state
     = (fst demo_run2, snd demo_run2)
   \<and> fst demo_run2 0 = Some (Inr 2) \<and> fst demo_run2 1 = Some (Inr 0)
   \<and> df_empty (heap (snd demo_run2) 0) \<and> \<not> df_empty (heap (snd demo_run2) 2)
   \<and> year_key demo_env (heap (snd demo_run2) 2) = Inr 2021
   \<and> [2021, 2020] \<noteq> ([] :: int list)
   \<and> valid_sched [2021, 2020] demo_sched2
   \<and> call_api_ttl_many demo_env demo_sched2 [2021, 2020] ''B01003_001E'' CITY_GEO 60 init_state
       = (Inr [2], snd demo_run2)"
proof -
  have d: "done_order demo_sched2 = [0, 1]" by (simp add: demo_sched2_def)
  have one: "fst demo_run2 (Suc 0) = Some (Inr 0)" using demo_run2_eval(2) by simp
  have f: "fetched (fst demo_run2) (done_order demo_sched2) = [2, 0]"
    by (simp add: d fetched_def List.map_filter_simps demo_run2_eval one)
  have ok: "\<forall>i \<in> set (done_order demo_sched2). \<exists>a. fst demo_run2 i = Some (Inr a)"
    by (simp add: d demo_run2_eval one)
  have keys: "\<forall>a \<in> set (fetched (fst demo_run2) (done_order demo_sched2)).
                 \<not> df_empty (heap (snd demo_run2) a)
                 \<longrightarrow> (\<exists>y. year_key demo_env (heap (snd demo_run2) a) = Inr y)"
    by (simp add: f demo_run2_eval)
  have ne: "[2021, 2020] \<noteq> ([] :: int list)" by simp
  from empty_years_are_omitted [OF demo_run2_result ok keys ne, of 60]
  obtain frames where
    r: "call_api_ttl_many demo_env demo_sched2 [2021, 2020] ''B01003_001E'' CITY_GEO 60 init_state
         = (Inr frames, snd demo_run2)"
    and m: "mset frames = mset (filter (\<lambda>a. \<not> df_empty (heap (snd demo_run2) a))
                                  (fetched (fst demo_run2) (done_order demo_sched2)))"
    by blast
  from m have "mset frames = {#2#}" by (simp add: f demo_run2_eval)
  then have "frames = [2]" by (metis mset_single_iff_right mset.simps(1) mset.simps(2) add_mset_eq_single)
  with r demo_run2_result demo_run2_eval ne demo_sched2_valid show ?thesis by blast
qed

end
